theory Spec2Isabelle
  imports Main
begin

section \<open>Python values, exceptions and strings\<close>

text \<open>
  A shallow embedding of \<^verbatim>\<open>import_bronze.py\<close>. Python strings are modelled as
  \<open>string\<close> (code points below 256), Python integers as \<open>int\<close>, and an exception
  raised by the program or by one of its collaborators as a value of \<open>exn\<close>.
\<close>

datatype exn =
    SystemExit string  \<comment> \<open>\<^verbatim>\<open>sys.exit(msg)\<close>\<close>
  | KeyError           \<comment> \<open>a lookup in \<^verbatim>\<open>QUARTER_MONTH\<close> that misses\<close>
  | Raised string      \<comment> \<open>an exception raised by a collaborator, with its opaque cause\<close>

text \<open>The decimal rendering of an integer in an f-string.\<close>

fun str_nat :: "nat \<Rightarrow> string" where
  "str_nat n = (if n < 10 then [char_of (48 + n)]
                else str_nat (n div 10) @ [char_of (48 + n mod 10)])"

declare str_nat.simps [simp del]

definition str_int :: "int \<Rightarrow> string" where
  "str_int i = (if i < 0 then CHR ''-'' # str_nat (nat (- i)) else str_nat (nat i))"

text \<open>
  \<^verbatim>\<open>str.strip()\<close> removes leading and trailing white space. For code points below 256
  these are 9 to 13, 28 to 32, 133 and 160.
\<close>

definition py_isspace :: "char \<Rightarrow> bool" where
  "py_isspace c \<longleftrightarrow> (of_char c :: nat) \<in> {9, 10, 11, 12, 13, 28, 29, 30, 31, 32, 133, 160}"

definition py_strip :: "string \<Rightarrow> string" where
  "py_strip s = rev (dropWhile py_isspace (rev (dropWhile py_isspace s)))"

section \<open>Quarter utilities\<close>

definition is_digit :: "char \<Rightarrow> bool" where
  "is_digit c \<longleftrightarrow> 48 \<le> (of_char c :: nat) \<and> (of_char c :: nat) \<le> 57"

text \<open>\<^verbatim>\<open>int(m.group(k))\<close> on a run of decimal digits.\<close>

definition int_of_digits :: "string \<Rightarrow> int" where
  "int_of_digits ds = foldl (\<lambda>a c. 10 * a + int (of_char c - 48)) 0 ds"

text \<open>
  \<^verbatim>\<open>re.match(r"^(\d{4})-Q([1-4])$", s)\<close>: four digits, a dash, \<open>Q\<close> and a digit from 1
  to 4. In Python \<^verbatim>\<open>$\<close> also matches just before a newline that ends the string, so a
  string of eight characters whose last one is a line feed matches too.
\<close>

definition quarter_match :: "string \<Rightarrow> (string \<times> string) option" where
  "quarter_match s =
     (if (length s = 7 \<or> (length s = 8 \<and> s ! 7 = CHR 0x0A))
         \<and> list_all is_digit (take 4 s)
         \<and> s ! 4 = CHR ''-'' \<and> s ! 5 = CHR ''Q''
         \<and> s ! 6 \<in> set ''1234''
      then Some (take 4 s, [s ! 6]) else None)"

definition parse_quarter :: "string \<Rightarrow> exn + (int \<times> int)" where
  "parse_quarter s =
     (case quarter_match s of
        None \<Rightarrow>
          Inl (SystemExit (''Invalid quarter format: '' @ [CHR 0x22] @ s @ [CHR 0x22]
                           @ ''. Expected YYYY-QN (e.g. 2025-Q3)''))
      | Some (g1, g2) \<Rightarrow> Inr (int_of_digits g1, int_of_digits g2))"

definition QUARTER_MONTH :: "int \<Rightarrow> string option" where
  "QUARTER_MONTH q =
     (if q = 1 then Some ''03'' else if q = 2 then Some ''06''
      else if q = 3 then Some ''09'' else if q = 4 then Some ''12'' else None)"

definition NCUA_BASE_URL :: string where
  "NCUA_BASE_URL = ''https://www.ncua.gov/files/publications/analysis''"

definition quarter_url :: "int \<Rightarrow> int \<Rightarrow> exn + string" where
  "quarter_url year quarter =
     (case QUARTER_MONTH quarter of
        None \<Rightarrow> Inl KeyError
      | Some m \<Rightarrow> Inr (NCUA_BASE_URL @ ''/call-report-data-'' @ str_int year @ ''-'' @ m @ ''.zip''))"

text \<open>The f-string \<^verbatim>\<open>f"{y}-Q{q}"\<close>.\<close>

definition quarter_label :: "int \<Rightarrow> int \<Rightarrow> string" where
  "quarter_label y q = str_int y @ ''-Q'' @ str_int q"

text \<open>
  The \<^verbatim>\<open>while (y, q) <= (ey, eq)\<close> loop of \<^verbatim>\<open>quarter_range\<close>; tuples compare
  lexicographically.
\<close>

function quarter_loop :: "int \<Rightarrow> int \<Rightarrow> int \<Rightarrow> int \<Rightarrow> string list \<Rightarrow> string list" where
  "quarter_loop y q ey eq quarters =
     (if y < ey \<or> (y = ey \<and> q \<le> eq) then
        (if q + 1 > 4 then quarter_loop (y + 1) 1 ey eq (quarters @ [quarter_label y q])
         else quarter_loop y (q + 1) ey eq (quarters @ [quarter_label y q]))
      else quarters)"
  by pat_completeness auto
termination
  by (relation "measures [\<lambda>(y, q, ey, eq, qs). nat (ey - y + 1),
                          \<lambda>(y, q, ey, eq, qs). nat (5 - q)]") auto

declare quarter_loop.simps [simp del]

definition quarter_range :: "string \<Rightarrow> string \<Rightarrow> exn + string list" where
  "quarter_range start end =
     (case parse_quarter start of
        Inl e \<Rightarrow> Inl e
      | Inr (sy, sq) \<Rightarrow>
          (case parse_quarter end of
             Inl e \<Rightarrow> Inl e
           | Inr (ey, eq) \<Rightarrow>
               (let quarters = quarter_loop sy sq ey eq []
                in if quarters = [] then Inl (SystemExit (''Invalid range: '' @ start @ '' to '' @ end))
                   else Inr quarters)))"

text \<open>
  The position of a quarter on the time line, and the quarter at a position as the
  f-string of \<^verbatim>\<open>quarter_range\<close> renders it: the year in decimal without padding.
\<close>

definition quarter_index :: "int \<Rightarrow> int \<Rightarrow> int" where
  "quarter_index y q = 4 * y + (q - 1)"

definition rendered_quarter_at :: "int \<Rightarrow> string" where
  "rendered_quarter_at i = quarter_label (i div 4) (i mod 4 + 1)"

text \<open>
  The quarter range in the words of the specification: the identifier \<^verbatim>\<open>YYYY-QN\<close> of a
  quarter has a year of four digits and a quarter digit, and the expansion is the list
  of the identifiers of every quarter from the start to the end, both included, in
  chronological order.
\<close>

definition digit_char :: "nat \<Rightarrow> char" where
  "digit_char d = ''0123456789'' ! (d mod 10)"

definition spec_quarter_id :: "int \<Rightarrow> int \<Rightarrow> string" where
  "spec_quarter_id y q =
     [digit_char (nat y div 1000), digit_char (nat y div 100), digit_char (nat y div 10),
      digit_char (nat y)]
     @ ''-Q'' @ [digit_char (nat q)]"

definition spec_quarter_range :: "int \<Rightarrow> int \<Rightarrow> int \<Rightarrow> int \<Rightarrow> string list" where
  "spec_quarter_range sy sq ey eq =
     map (\<lambda>i. spec_quarter_id (i div 4) (i mod 4 + 1))
         [quarter_index sy sq .. quarter_index ey eq]"

section \<open>Rows and the row projection\<close>

text \<open>
  A destination row is a Python dict from column name to a value that is \<^verbatim>\<open>None\<close>, a
  string or an integer. A record yielded by \<^verbatim>\<open>csv.DictReader\<close> is a dict from header
  name to a string, or to \<^verbatim>\<open>None\<close> where the line was shorter than the header line:
  \<open>None\<close> is an absent key, \<open>Some None\<close> a key bound to \<^verbatim>\<open>None\<close>.
\<close>

datatype val = Null | Text string | Num int

type_synonym row = "string \<Rightarrow> val option"

type_synonym csv_record = "string \<Rightarrow> string option option"

type_synonym csv_file = "string list \<times> csv_record list"

definition BATCH_SIZE :: nat where
  "BATCH_SIZE = 200"

definition KEY_COLUMNS :: "string set" where
  "KEY_COLUMNS = {''id'', ''cu_number'', ''cycle_date'', ''year'', ''quarter'', ''period'',
                  ''source_url'', ''imported_at''}"

definition SOURCE_FILES :: "(string \<times> string) list" where
  "SOURCE_FILES =
     [(''FOICU.txt'', ''bronze_foicu''), (''FS220.txt'', ''bronze_fs220''),
      (''FS220A.txt'', ''bronze_fs220a''), (''FS220B.txt'', ''bronze_fs220b''),
      (''FS220C.txt'', ''bronze_fs220c''), (''FS220D.txt'', ''bronze_fs220d''),
      (''FS220G.txt'', ''bronze_fs220g''), (''FS220H.txt'', ''bronze_fs220h''),
      (''FS220I.txt'', ''bronze_fs220i''), (''FS220J.txt'', ''bronze_fs220j''),
      (''FS220K.txt'', ''bronze_fs220k''), (''FS220L.txt'', ''bronze_fs220l''),
      (''FS220M.txt'', ''bronze_fs220m''), (''FS220N.txt'', ''bronze_fs220n''),
      (''FS220P.txt'', ''bronze_fs220p''), (''FS220Q.txt'', ''bronze_fs220q''),
      (''FS220R.txt'', ''bronze_fs220r''), (''FS220S.txt'', ''bronze_fs220s'')]"

text \<open>\<^verbatim>\<open>record.get(k)\<close>: \<^verbatim>\<open>None\<close> for an absent key and for a key bound to \<^verbatim>\<open>None\<close>.\<close>

definition record_get :: "csv_record \<Rightarrow> string \<Rightarrow> string option" where
  "record_get r k = (case r k of None \<Rightarrow> None | Some v \<Rightarrow> v)"

text \<open>Truth value of a string or \<^verbatim>\<open>None\<close>, and Python's \<^verbatim>\<open>a or b\<close>.\<close>

definition truthy :: "string option \<Rightarrow> bool" where
  "truthy v = (case v of None \<Rightarrow> False | Some s \<Rightarrow> s \<noteq> [])"

definition py_or :: "string option \<Rightarrow> string option \<Rightarrow> string option" where
  "py_or a b = (if truthy a then a else b)"

text \<open>\<^verbatim>\<open>(record.get(k1) or record.get(k2) or "").strip()\<close>\<close>

definition key_field :: "csv_record \<Rightarrow> string \<Rightarrow> string \<Rightarrow> string" where
  "key_field r k1 k2 =
     py_strip (case py_or (py_or (record_get r k1) (record_get r k2)) (Some []) of
                 None \<Rightarrow> [] | Some s \<Rightarrow> s)"

text \<open>
  \<^verbatim>\<open>value = record.get(header, ""); row[header] = value if value != "" else None\<close>
\<close>

definition cell_value :: "csv_record \<Rightarrow> string \<Rightarrow> val" where
  "cell_value r header =
     (case r header of
        None \<Rightarrow> Null
      | Some None \<Rightarrow> Null
      | Some (Some v) \<Rightarrow> if v \<noteq> [] then Text v else Null)"

text \<open>The loop that spreads every file column into the row.\<close>

definition spread :: "string list \<Rightarrow> csv_record \<Rightarrow> row \<Rightarrow> row" where
  "spread headers r row0 =
     fold (\<lambda>header row. if header \<notin> KEY_COLUMNS then row(header \<mapsto> cell_value r header) else row)
          headers row0"

text \<open>
  The body of the \<^verbatim>\<open>for record in reader\<close> loop of \<^verbatim>\<open>ingest_file\<close>: \<open>None\<close> is the
  \<^verbatim>\<open>continue\<close> of a record without an institution number.
\<close>

definition project_record ::
  "string list \<Rightarrow> csv_record \<Rightarrow> int \<Rightarrow> int \<Rightarrow> string \<Rightarrow> string \<Rightarrow> row option" where
  "project_record headers r year quarter period source_url =
     (let cu_number = key_field r ''CU_NUMBER'' ''CU_Number''
      in if cu_number = [] then None
         else
           (let cycle = key_field r ''CYCLE_DATE'' ''Cycle_Date'';
                row0 = [''cu_number'' \<mapsto> Text cu_number,
                        ''cycle_date'' \<mapsto> (if cycle \<noteq> [] then Text cycle else Null),
                        ''year'' \<mapsto> Num year,
                        ''quarter'' \<mapsto> Num quarter,
                        ''period'' \<mapsto> Text period,
                        ''source_url'' \<mapsto> Text source_url]
            in Some (spread headers r row0)))"

fun project_rows ::
  "string list \<Rightarrow> csv_record list \<Rightarrow> int \<Rightarrow> int \<Rightarrow> string \<Rightarrow> string \<Rightarrow> row list" where
  "project_rows headers [] year quarter period source_url = []"
| "project_rows headers (r # rs) year quarter period source_url =
     (case project_record headers r year quarter period source_url of
        None \<Rightarrow> project_rows headers rs year quarter period source_url
      | Some row \<Rightarrow> row # project_rows headers rs year quarter period source_url)"

section \<open>The collaborators: storage backend, file system, archive provider\<close>

text \<open>
  The functions of the program receive the storage client as an argument and reach
  the file system and the network through the standard library. They are modelled by
  a world that is passed through every effectful function. How the backend answers
  each of its calls is scripted by a list of faults, one consumed per call (none left
  means no fault): the call succeeds, raises an exception, or returns a response
  whose \<^verbatim>\<open>error\<close> attribute is set. Every call is appended to \<open>calls\<close>, every printed
  line to \<open>printed\<close>.
\<close>

datatype fault = NoFault | Raise string | RespError string

datatype call =
    GetColumnNames string
  | AddTextColumn string string
  | ReloadSchemaCache
  | Sleep nat
  | Upsert string "row list"
  | Download string
  | Rmtree string

datatype msg =
    MsgNotFound string
  | MsgAdding nat string
  | MsgUpsertError string string
  | MsgFileDone string string nat nat nat
  | MsgBanner string
  | MsgDownloading string
  | MsgExtracting
  | MsgComplete nat string
  | MsgQuarters "string list"
  | MsgAllDone nat nat

record world =
  db_columns :: "string \<Rightarrow> string list"
  db_rows :: "string \<Rightarrow> row list"
  faults :: "fault list"
  filesys :: "string \<Rightarrow> csv_file option"
  net :: "string \<Rightarrow> exn + (string \<times> string list \<times> (string \<Rightarrow> csv_file option))"
  calls :: "call list"
  printed :: "msg list"

definition log_call :: "call \<Rightarrow> world \<Rightarrow> world" where
  "log_call c w = w\<lparr>calls := calls w @ [c]\<rparr>"

definition print :: "msg \<Rightarrow> world \<Rightarrow> world" where
  "print m w = w\<lparr>printed := printed w @ [m]\<rparr>"

definition next_fault :: "world \<Rightarrow> fault \<times> world" where
  "next_fault w = (case faults w of [] \<Rightarrow> (NoFault, w) | f # rest \<Rightarrow> (f, w\<lparr>faults := rest\<rparr>))"

text \<open>
  Modelled from the spec: the Schema Registry of the storage backend, whose SQL
  functions \<^verbatim>\<open>get_column_names\<close>, \<^verbatim>\<open>add_text_column\<close> and \<^verbatim>\<open>reload_schema_cache\<close> are
  not part of the source file. Listing reports the current column names of the table;
  adding appends a column if it is absent and is a no-op if it is present;
  the cache reload changes no data. A response carrying an error has no data and no
  effect.
\<close>

definition rpc_get_column_names :: "string \<Rightarrow> world \<Rightarrow> (exn + string list option) \<times> world" where
  "rpc_get_column_names table_name w =
     (case next_fault (log_call (GetColumnNames table_name) w) of
        (Raise c, w') \<Rightarrow> (Inl (Raised c), w')
      | (RespError c, w') \<Rightarrow> (Inr None, w')
      | (NoFault, w') \<Rightarrow> (Inr (Some (db_columns w' table_name)), w'))"

definition rpc_add_text_column :: "string \<Rightarrow> string \<Rightarrow> world \<Rightarrow> (exn + unit) \<times> world" where
  "rpc_add_text_column table_name col w =
     (case next_fault (log_call (AddTextColumn table_name col) w) of
        (Raise c, w') \<Rightarrow> (Inl (Raised c), w')
      | (RespError c, w') \<Rightarrow> (Inr (), w')
      | (NoFault, w') \<Rightarrow>
          (Inr (), w'\<lparr>db_columns := (db_columns w')
                      (table_name := (if col \<in> set (db_columns w' table_name)
                                      then db_columns w' table_name
                                      else db_columns w' table_name @ [col]))\<rparr>))"

definition rpc_reload_schema_cache :: "world \<Rightarrow> (exn + unit) \<times> world" where
  "rpc_reload_schema_cache w =
     (case next_fault (log_call ReloadSchemaCache w) of
        (Raise c, w') \<Rightarrow> (Inl (Raised c), w')
      | (RespError c, w') \<Rightarrow> (Inr (), w')
      | (NoFault, w') \<Rightarrow> (Inr (), w'))"

definition sleep :: "nat \<Rightarrow> world \<Rightarrow> world" where
  "sleep n w = log_call (Sleep n) w"

text \<open>
  Modelled from the spec: the insert-or-update of the storage backend with the
  conflict key \<^verbatim>\<open>cu_number,year,quarter\<close>, which is executed by the database and is not
  part of the source file. Existing rows matching the conflict key have their columns
  overwritten with the values of the submitted row; a row whose key is absent is
  inserted. The rows of a batch are applied in order.
\<close>

definition row_key :: "row \<Rightarrow> val option \<times> val option \<times> val option" where
  "row_key r = (r ''cu_number'', r ''year'', r ''quarter'')"

definition upsert_row :: "row \<Rightarrow> row list \<Rightarrow> row list" where
  "upsert_row r t =
     (if \<exists>x \<in> set t. row_key x = row_key r
      then map (\<lambda>x. if row_key x = row_key r then x ++ r else x) t
      else t @ [r])"

definition upsert_batch :: "row list \<Rightarrow> row list \<Rightarrow> row list" where
  "upsert_batch batch t = fold upsert_row batch t"

text \<open>
  \<^verbatim>\<open>supabase.table(table_name).upsert(batch, on_conflict=...).execute()\<close>: the result is
  the \<^verbatim>\<open>error\<close> attribute of the response, \<open>None\<close> when the batch was applied.
\<close>

definition table_upsert :: "string \<Rightarrow> row list \<Rightarrow> world \<Rightarrow> (exn + string option) \<times> world" where
  "table_upsert table_name batch w =
     (case next_fault (log_call (Upsert table_name batch) w) of
        (Raise c, w') \<Rightarrow> (Inl (Raised c), w')
      | (RespError c, w') \<Rightarrow> (Inr (Some c), w')
      | (NoFault, w') \<Rightarrow>
          (Inr None, w'\<lparr>db_rows := (db_rows w')
                         (table_name := upsert_batch batch (db_rows w' table_name))\<rparr>))"

text \<open>Paths: \<^verbatim>\<open>os.path.join\<close> of a directory without a trailing separator and a file name, and \<^verbatim>\<open>os.path.basename\<close>.\<close>

definition path_join :: "string \<Rightarrow> string \<Rightarrow> string" where
  "path_join d f = d @ ''/'' @ f"

definition basename :: "string \<Rightarrow> string" where
  "basename p = rev (takeWhile (\<lambda>c. c \<noteq> CHR ''/'') (rev p))"

section \<open>Download and extract\<close>

text \<open>
  \<^verbatim>\<open>resolve_data_dir\<close>: the extraction directory itself if it holds \<^verbatim>\<open>FOICU.txt\<close>,
  else the first of its sub-directories that does, else \<^verbatim>\<open>sys.exit\<close>. The
  sub-directories are the entries that \<^verbatim>\<open>os.scandir\<close> yields.
\<close>

definition resolve_data_dir :: "string \<Rightarrow> string list \<Rightarrow> world \<Rightarrow> exn + string" where
  "resolve_data_dir extract_dir subdirs w =
     (if filesys w (path_join extract_dir ''FOICU.txt'') \<noteq> None then Inr extract_dir
      else (case filter (\<lambda>d. filesys w (path_join d ''FOICU.txt'') \<noteq> None) subdirs of
              d # _ \<Rightarrow> Inr d
            | [] \<Rightarrow> Inl (SystemExit (''FOICU.txt not found in extracted data at '' @ extract_dir))))"

text \<open>
  \<^verbatim>\<open>download_and_extract\<close>: the download and the extraction are the archive provider's;
  \<open>net\<close> says, per URL, whether they raise or which temporary directory, which
  sub-directories and which files they leave.
\<close>

definition download_and_extract ::
  "int \<Rightarrow> int \<Rightarrow> world \<Rightarrow> (exn + (string \<times> string \<times> string)) \<times> world" where
  "download_and_extract year quarter w =
     (case quarter_url year quarter of
        Inl e \<Rightarrow> (Inl e, w)
      | Inr url \<Rightarrow>
          (let w1 = log_call (Download url) (print (MsgDownloading url) w)
           in case net w1 url of
                Inl e \<Rightarrow> (Inl e, w1)
              | Inr (tmp, subdirs, files) \<Rightarrow>
                  (let w2 = print MsgExtracting (w1\<lparr>filesys := files\<rparr>)
                   in case resolve_data_dir (path_join tmp ''data'') subdirs w2 of
                        Inl e \<Rightarrow> (Inl e, w2)
                      | Inr data_dir \<Rightarrow> (Inr (tmp, data_dir, url), w2))))"

text \<open>\<^verbatim>\<open>shutil.rmtree(tmp, ignore_errors=True)\<close>\<close>

definition rmtree :: "string \<Rightarrow> world \<Rightarrow> world" where
  "rmtree tmp w =
     log_call (Rmtree tmp)
       (w\<lparr>filesys := (\<lambda>p. if take (length tmp + 1) p = tmp @ ''/'' then None else filesys w p)\<rparr>)"

section \<open>Dynamic schema\<close>

text \<open>The \<^verbatim>\<open>for col in new_cols\<close> loop of \<^verbatim>\<open>ensure_columns\<close>.\<close>

fun add_columns :: "string \<Rightarrow> string list \<Rightarrow> world \<Rightarrow> (exn + unit) \<times> world" where
  "add_columns table_name [] w = (Inr (), w)"
| "add_columns table_name (col # cols) w =
     (case rpc_add_text_column table_name col w of
        (Inl e, w') \<Rightarrow> (Inl e, w')
      | (Inr u, w') \<Rightarrow> add_columns table_name cols w')"

definition new_columns :: "string list option \<Rightarrow> string list \<Rightarrow> string list" where
  "new_columns data file_headers =
     (let existing = (case data of None \<Rightarrow> {} | Some cols \<Rightarrow> set cols)
      in filter (\<lambda>h. h \<notin> existing \<and> h \<notin> KEY_COLUMNS) file_headers)"

definition ensure_columns :: "string \<Rightarrow> string list \<Rightarrow> world \<Rightarrow> (exn + unit) \<times> world" where
  "ensure_columns table_name file_headers w =
     (case rpc_get_column_names table_name w of
        (Inl e, w1) \<Rightarrow> (Inl e, w1)
      | (Inr data, w1) \<Rightarrow>
          (let new_cols = new_columns data file_headers
           in if new_cols = [] then (Inr (), w1)
              else
                (case add_columns table_name new_cols
                        (print (MsgAdding (length new_cols) table_name) w1) of
                   (Inl e, w2) \<Rightarrow> (Inl e, w2)
                 | (Inr u, w2) \<Rightarrow>
                     (case rpc_reload_schema_cache w2 of
                        (Inl e, w3) \<Rightarrow> (Inl e, w3)
                      | (Inr u', w3) \<Rightarrow> (Inr (), sleep 1 w3)))))"

section \<open>Parse and ingest a single text file\<close>

text \<open>
  The batch loop \<^verbatim>\<open>for i in range(0, len(rows), BATCH_SIZE)\<close>, with the counter
  \<^verbatim>\<open>errors\<close>; the batch is the slice \<^verbatim>\<open>rows[i : i + BATCH_SIZE]\<close>. The test
  \<^verbatim>\<open>hasattr(resp, "error") and resp.error\<close> holds for an error that is present and
  true, which for a string means non-empty.
\<close>

function upsert_loop ::
  "string \<Rightarrow> row list \<Rightarrow> nat \<Rightarrow> nat \<Rightarrow> world \<Rightarrow> (exn + nat) \<times> world" where
  "upsert_loop table_name rows i errors w =
     (if i < length rows then
        (case table_upsert table_name (take BATCH_SIZE (drop i rows)) w of
           (Inl e, w') \<Rightarrow> (Inl e, w')
         | (Inr None, w') \<Rightarrow> upsert_loop table_name rows (i + BATCH_SIZE) errors w'
         | (Inr (Some c), w') \<Rightarrow>
             (if c \<noteq> [] then
                upsert_loop table_name rows (i + BATCH_SIZE) (errors + 1)
                  (print (MsgUpsertError table_name c) w')
              else upsert_loop table_name rows (i + BATCH_SIZE) errors w'))
      else (Inr errors, w))"
  by pat_completeness auto
termination
  by (relation "measure (\<lambda>(t, rows, i, errors, w). length rows - i)")
     (auto simp: BATCH_SIZE_def)

declare upsert_loop.simps [simp del]

definition ingest_file ::
  "string \<Rightarrow> string \<Rightarrow> int \<Rightarrow> int \<Rightarrow> string \<Rightarrow> string \<Rightarrow> world \<Rightarrow> (exn + nat) \<times> world" where
  "ingest_file file_path table_name year quarter period source_url w =
     (case filesys w file_path of
        None \<Rightarrow> (Inr 0, print (MsgNotFound (basename file_path)) w)
      | Some (headers, records) \<Rightarrow>
          (case ensure_columns table_name headers w of
             (Inl e, w1) \<Rightarrow> (Inl e, w1)
           | (Inr u, w1) \<Rightarrow>
               (let rows = project_rows headers records year quarter period source_url
                in case upsert_loop table_name rows 0 0 w1 of
                     (Inl e, w2) \<Rightarrow> (Inl e, w2)
                   | (Inr errors, w2) \<Rightarrow>
                       (Inr (length rows),
                        print (MsgFileDone (basename file_path) table_name (length rows)
                                 (length headers) errors) w2))))"

section \<open>Import a single quarter, and the command line\<close>

text \<open>The \<^verbatim>\<open>for filename, table_name in SOURCE_FILES.items()\<close> loop, with \<^verbatim>\<open>total_rows\<close>.\<close>

fun import_files ::
  "(string \<times> string) list \<Rightarrow> string \<Rightarrow> int \<Rightarrow> int \<Rightarrow> string \<Rightarrow> string \<Rightarrow> nat \<Rightarrow> world
   \<Rightarrow> (exn + nat) \<times> world" where
  "import_files [] data_dir year quarter period source_url total_rows w = (Inr total_rows, w)"
| "import_files ((filename, table_name) # rest) data_dir year quarter period source_url total_rows w =
     (case ingest_file (path_join data_dir filename) table_name year quarter period source_url w of
        (Inl e, w') \<Rightarrow> (Inl e, w')
      | (Inr n, w') \<Rightarrow>
          import_files rest data_dir year quarter period source_url (total_rows + n) w')"

text \<open>
  \<^verbatim>\<open>import_quarter\<close>: the download comes before the \<^verbatim>\<open>try\<close>; the \<^verbatim>\<open>finally\<close> removes
  the temporary directory and lets an exception of the loop pass.
\<close>

definition import_quarter :: "string \<Rightarrow> world \<Rightarrow> (exn + nat) \<times> world" where
  "import_quarter quarter_str w =
     (case parse_quarter quarter_str of
        Inl e \<Rightarrow> (Inl e, w)
      | Inr (year, quarter) \<Rightarrow>
          (case download_and_extract year quarter (print (MsgBanner quarter_str) w) of
             (Inl e, w1) \<Rightarrow> (Inl e, w1)
           | (Inr (tmp, data_dir, source_url), w1) \<Rightarrow>
               (case import_files SOURCE_FILES data_dir year quarter quarter_str source_url 0 w1 of
                  (Inl e, w2) \<Rightarrow> (Inl e, rmtree tmp w2)
                | (Inr total_rows, w2) \<Rightarrow>
                    (Inr total_rows, print (MsgComplete total_rows quarter_str) (rmtree tmp w2)))))"

text \<open>The \<^verbatim>\<open>for q in quarters\<close> loop of \<^verbatim>\<open>main\<close>, with \<^verbatim>\<open>total\<close>.\<close>

fun main_loop :: "string list \<Rightarrow> nat \<Rightarrow> world \<Rightarrow> (exn + nat) \<times> world" where
  "main_loop [] tot w = (Inr tot, w)"
| "main_loop (q # qs) tot w =
     (case import_quarter q w of
        (Inl e, w') \<Rightarrow> (Inl e, w')
      | (Inr n, w') \<Rightarrow> main_loop qs (tot + n) w')"

text \<open>
  \<^verbatim>\<open>main\<close> on the positional arguments, after the environment is loaded and without
  \<^verbatim>\<open>--latest\<close>: one quarter, a range of two, or the usage message and exit status 1.
\<close>

definition requested_quarters :: "string list \<Rightarrow> exn + string list" where
  "requested_quarters args =
     (case args of
        [q] \<Rightarrow> Inr [q]
      | [s, e] \<Rightarrow> quarter_range s e
      | _ \<Rightarrow> Inl (SystemExit ''1''))"

definition main :: "string list \<Rightarrow> world \<Rightarrow> (exn + unit) \<times> world" where
  "main args w =
     (case requested_quarters args of
        Inl e \<Rightarrow> (Inl e, w)
      | Inr quarters \<Rightarrow>
          (case main_loop quarters 0 (print (MsgQuarters quarters) w) of
             (Inl e, w1) \<Rightarrow> (Inl e, w1)
           | (Inr tot, w1) \<Rightarrow> (Inr (), print (MsgAllDone (length quarters) tot) w1)))"

section \<open>Reference notions and concrete inputs\<close>

text \<open>
  The institution number that the projection trims: the value under \<^verbatim>\<open>CU_NUMBER\<close> if it
  is a string other than the empty one, else the value under \<^verbatim>\<open>CU_Number\<close> if it is a
  string, else the empty string.
\<close>

definition chosen_id :: "csv_record \<Rightarrow> string" where
  "chosen_id r =
     (case r ''CU_NUMBER'' of
        Some (Some s) \<Rightarrow>
          if s \<noteq> [] then s else (case r ''CU_Number'' of Some (Some t) \<Rightarrow> t | _ \<Rightarrow> [])
      | _ \<Rightarrow> (case r ''CU_Number'' of Some (Some t) \<Rightarrow> t | _ \<Rightarrow> []))"

text \<open>
  The key-drop property in the words of the specification: the institution-identifier
  field of a header variant after trimming (empty when the variant is absent), and a
  record being blank when the field is empty in both recognised variants.
\<close>

definition spec_variant :: "csv_record \<Rightarrow> string \<Rightarrow> string" where
  "spec_variant r k = (case r k of Some (Some s) \<Rightarrow> py_strip s | _ \<Rightarrow> [])"

definition spec_id_blank :: "csv_record \<Rightarrow> bool" where
  "spec_id_blank r \<longleftrightarrow> spec_variant r ''CU_NUMBER'' = [] \<and> spec_variant r ''CU_Number'' = []"

definition rec_blank_primary :: csv_record where
  "rec_blank_primary = [''CU_NUMBER'' \<mapsto> Some ''  '', ''CU_Number'' \<mapsto> Some ''123'']"

definition hdr_one :: "string list" where
  "hdr_one = [''CU_NUMBER'', ''CYCLE_DATE'', ''ASSETS'', ''NOTE'']"

definition rec_one :: csv_record where
  "rec_one = [''CU_NUMBER'' \<mapsto> Some ''12345'', ''CYCLE_DATE'' \<mapsto> Some ''2025-06-30'',
              ''ASSETS'' \<mapsto> Some ''1000000'', ''NOTE'' \<mapsto> Some []]"

definition row_one :: row where
  "row_one = spread hdr_one rec_one
     [''cu_number'' \<mapsto> Text ''12345'', ''cycle_date'' \<mapsto> Text ''2025-06-30'',
      ''year'' \<mapsto> Num 2025, ''quarter'' \<mapsto> Num 3, ''period'' \<mapsto> Text ''2025-Q3'',
      ''source_url'' \<mapsto> Text ''u'']"

text \<open>
  A script of faults in which no call raises; the causes of the error responses of a
  script that the test on \<^verbatim>\<open>resp.error\<close> sees (the non-empty ones); the number of
  batches of a list of rows and the batches themselves, batch \<open>k\<close> being the slice
  \<^verbatim>\<open>rows[k * BATCH_SIZE : (k + 1) * BATCH_SIZE]\<close>.
\<close>

definition no_raise :: "fault list \<Rightarrow> bool" where
  "no_raise fs \<longleftrightarrow> list_all (\<lambda>f. case f of Raise c \<Rightarrow> False | _ \<Rightarrow> True) fs"

fun error_causes :: "fault list \<Rightarrow> string list" where
  "error_causes [] = []"
| "error_causes (RespError c # fs) = (if c \<noteq> [] then c # error_causes fs else error_causes fs)"
| "error_causes (f # fs) = error_causes fs"

definition n_batches :: "'a list \<Rightarrow> nat" where
  "n_batches rows = (length rows + BATCH_SIZE - 1) div BATCH_SIZE"

definition batches :: "'a list \<Rightarrow> 'a list list" where
  "batches rows = map (\<lambda>k. take BATCH_SIZE (drop (k * BATCH_SIZE) rows)) [0 ..< n_batches rows]"

text \<open>
  The column names that the listing call of \<^verbatim>\<open>ensure_columns\<close> reports in a world, and
  the calls that reconciliation makes for a list of missing columns.
\<close>

definition listed_columns :: "world \<Rightarrow> string \<Rightarrow> string list option" where
  "listed_columns w t = (case faults w of RespError c # _ \<Rightarrow> None | _ \<Rightarrow> Some (db_columns w t))"

definition reconcile_calls :: "string \<Rightarrow> string list \<Rightarrow> call list" where
  "reconcile_calls t missing =
     GetColumnNames t #
       (if missing = [] then []
        else map (AddTextColumn t) missing @ [ReloadSchemaCache, Sleep 1])"

text \<open>Concrete worlds: nothing stored, no fault scripted, and an archive of two files.\<close>

definition world0 :: world where
  "world0 = \<lparr>db_columns = (\<lambda>t. []), db_rows = (\<lambda>t. []), faults = [],
             filesys = (\<lambda>p. None), net = (\<lambda>u. Inl (Raised ''offline'')),
             calls = [], printed = []\<rparr>"

definition archive_two :: "string \<Rightarrow> csv_file option" where
  "archive_two p =
     (if p = ''/t/data/FOICU.txt'' then Some (hdr_one, [rec_one])
      else if p = ''/t/data/FS220.txt'' then Some (hdr_one, [rec_one])
      else None)"

definition world_known :: world where
  "world_known = world0\<lparr>db_columns := (\<lambda>t. hdr_one), filesys := archive_two\<rparr>"

text \<open>
  The table after a run of batches under a script of faults: a batch is applied when
  its call meets no fault, and leaves the table as it is when the call raises or
  answers with an error.
\<close>

fun apply_batches :: "fault list \<Rightarrow> row list list \<Rightarrow> row list \<Rightarrow> row list" where
  "apply_batches fs [] tbl = tbl"
| "apply_batches fs (b # bs) tbl =
     apply_batches (tl fs) bs
       (case fs of RespError c # _ \<Rightarrow> tbl | Raise c # _ \<Rightarrow> tbl | _ \<Rightarrow> upsert_batch b tbl)"

definition world_fail :: world where
  "world_fail = world_known\<lparr>faults := [NoFault, RespError ''boom'']\<rparr>"


text \<open>
  A world in which the archive of every period can be fetched and the first
  \<^verbatim>\<open>add_text_column\<close> raises, and a world in which the archive of 2024-Q4 cannot be
  fetched while every other one can.
\<close>

definition world_schema_fail :: world where
  "world_schema_fail =
     world0\<lparr>net := (\<lambda>u. Inr (''/t'', [], archive_two)), faults := [NoFault, Raise ''boom'']\<rparr>"

definition world_offline_first :: world where
  "world_offline_first =
     world0\<lparr>net := (\<lambda>u. if u = ''https://www.ncua.gov/files/publications/analysis/call-report-data-2024-12.zip''
                           then Inl (Raised ''offline'')
                           else Inr (''/t'', [], archive_two))\<rparr>"

text \<open>
  The table states that can be reached: the empty table, with which a destination
  table starts, and every table that a batch of upserts makes of a reachable one.
  Also, for a key, the columns that a list of rows writes under that key, later rows
  over earlier ones.
\<close>

inductive reachable_table :: "row list \<Rightarrow> bool" where
  empty_table: "reachable_table []"
| after_batch: "reachable_table tbl \<Longrightarrow> reachable_table (upsert_batch batch tbl)"

fun merged :: "val option \<times> val option \<times> val option \<Rightarrow> row list \<Rightarrow> row" where
  "merged k [] = Map.empty"
| "merged k (r # rs) = (if row_key r = k then r ++ merged k rs else merged k rs)"

section \<open>Properties\<close>

subsection \<open>Quarter ranges\<close>

lemma parse_quarter_bounds: "parse_quarter s = Inr (y, q) \<Longrightarrow> 1 \<le> q \<and> q \<le> 4"
  unfolding parse_quarter_def quarter_match_def
  by (auto split: if_splits option.splits simp: int_of_digits_def)

lemma quarter_loop_upto:
  "1 \<le> q \<Longrightarrow> q \<le> 4 \<Longrightarrow> 1 \<le> eq \<Longrightarrow> eq \<le> 4 \<Longrightarrow>
   quarter_loop y q ey eq acc = acc @ map rendered_quarter_at [quarter_index y q .. quarter_index ey eq]"
proof (induction y q ey eq acc rule: quarter_loop.induct)
  case (1 y q ey eq quarters)
  show ?case
  proof (cases "y < ey \<or> (y = ey \<and> q \<le> eq)")
    case False
    then have "quarter_index ey eq < quarter_index y q"
      using "1.prems" by (auto simp: quarter_index_def)
    then show ?thesis using False by (subst quarter_loop.simps) auto
  next
    case True
    then have le: "quarter_index y q \<le> quarter_index ey eq"
      using "1.prems" by (auto simp: quarter_index_def)
    have at: "rendered_quarter_at (quarter_index y q) = quarter_label y q"
      using "1.prems" by (simp add: rendered_quarter_at_def quarter_index_def)
    show ?thesis
    proof (cases "q + 1 > 4")
      case wrap: True
      then have "q = 4" using "1.prems" by simp
      then have nxt: "quarter_index (y + 1) 1 = quarter_index y q + 1"
        by (simp add: quarter_index_def)
      have "quarter_loop y q ey eq quarters =
            quarter_loop (y + 1) 1 ey eq (quarters @ [quarter_label y q])"
        using True wrap by (subst quarter_loop.simps) simp
      also have "\<dots> = (quarters @ [quarter_label y q]) @
                       map rendered_quarter_at [quarter_index (y + 1) 1 .. quarter_index ey eq]"
        using "1.IH"(1)[OF True wrap] "1.prems" by simp
      finally show ?thesis
        using le at nxt by (simp add: upto_rec1[of "quarter_index y q"])
    next
      case wrap: False
      have nxt: "quarter_index y (q + 1) = quarter_index y q + 1"
        by (simp add: quarter_index_def)
      have "quarter_loop y q ey eq quarters =
            quarter_loop y (q + 1) ey eq (quarters @ [quarter_label y q])"
        using True wrap by (subst quarter_loop.simps) simp
      also have "\<dots> = (quarters @ [quarter_label y q]) @
                       map rendered_quarter_at [quarter_index y (q + 1) .. quarter_index ey eq]"
        using "1.IH"(2)[OF True wrap] "1.prems" wrap by simp
      finally show ?thesis
        using le at nxt by (simp add: upto_rec1[of "quarter_index y q"])
    qed
  qed
qed

lemma quarter_range_rendered:
  assumes "parse_quarter start = Inr (sy, sq)"
    and "parse_quarter end = Inr (ey, eq)"
    and "sy < ey \<or> (sy = ey \<and> sq \<le> eq)"
  shows "quarter_range start end =
         Inr (map rendered_quarter_at [quarter_index sy sq .. quarter_index ey eq])"
proof -
  have b: "1 \<le> sq" "sq \<le> 4" "1 \<le> eq" "eq \<le> 4"
    using assms(1,2) parse_quarter_bounds by blast+
  have le: "quarter_index sy sq \<le> quarter_index ey eq"
    using assms(3) b by (auto simp: quarter_index_def)
  have "quarter_loop sy sq ey eq [] =
        map rendered_quarter_at [quarter_index sy sq .. quarter_index ey eq]"
    using quarter_loop_upto[OF b, of sy ey "[]"] by simp
  moreover have "map rendered_quarter_at [quarter_index sy sq .. quarter_index ey eq] \<noteq> []"
    using le by simp
  ultimately show ?thesis
    using assms(1,2) by (simp add: quarter_range_def)
qed

lemma quarter_range_example:
  "quarter_range ''2024-Q3'' ''2025-Q1'' = Inr [''2024-Q3'', ''2024-Q4'', ''2025-Q1'']"
proof -
  have p1: "parse_quarter ''2024-Q3'' = Inr (2024, 3)" by code_simp
  have p2: "parse_quarter ''2025-Q1'' = Inr (2025, 1)" by code_simp
  have o: "(2024::int) < 2025 \<or> ((2024::int) = 2025 \<and> (3::int) \<le> 1)" by simp
  have e: "map rendered_quarter_at [quarter_index 2024 3 .. quarter_index 2025 1] =
           [''2024-Q3'', ''2024-Q4'', ''2025-Q1'']" by code_simp
  show ?thesis using quarter_range_rendered[OF p1 p2 o] e by simp
qed

text \<open>
  Claim C9 holds of the specification's expansion and fails of the code for years
  below 1000. The identifiers \<^verbatim>\<open>0999-Q4\<close> and \<^verbatim>\<open>1000-Q1\<close> are accepted by
  \<^verbatim>\<open>parse_quarter\<close> and the start is not after the end. The list of every quarter from
  the start to the end is \<^verbatim>\<open>0999-Q4\<close>, \<^verbatim>\<open>1000-Q1\<close>; \<^verbatim>\<open>quarter_range\<close> returns
  \<^verbatim>\<open>999-Q4\<close>, \<^verbatim>\<open>1000-Q1\<close>, whose first element is not the start identifier and is
  rejected by \<^verbatim>\<open>parse_quarter\<close>, to which \<^verbatim>\<open>main\<close> hands it through \<^verbatim>\<open>import_quarter\<close>.
\<close>

theorem quarter_range_unpadded_year:
  "parse_quarter ''0999-Q4'' = Inr (999, 4)
   \<and> parse_quarter ''1000-Q1'' = Inr (1000, 1)
   \<and> spec_quarter_range 999 4 1000 1 = [''0999-Q4'', ''1000-Q1'']
   \<and> quarter_range ''0999-Q4'' ''1000-Q1'' = Inr [''999-Q4'', ''1000-Q1'']
   \<and> quarter_match ''999-Q4'' = None
   \<and> isl (parse_quarter ''999-Q4'')"
proof -
  have p1: "parse_quarter ''0999-Q4'' = Inr (999, 4)" by code_simp
  have p2: "parse_quarter ''1000-Q1'' = Inr (1000, 1)" by code_simp
  have s: "spec_quarter_range 999 4 1000 1 = [''0999-Q4'', ''1000-Q1'']"
    by (simp add: spec_quarter_range_def spec_quarter_id_def digit_char_def quarter_index_def
                  upto.simps)
  have o: "(999::int) < 1000 \<or> ((999::int) = 1000 \<and> (4::int) \<le> 1)" by simp
  have e: "map rendered_quarter_at [quarter_index 999 4 .. quarter_index 1000 1] =
           [''999-Q4'', ''1000-Q1'']" by code_simp
  have r: "quarter_range ''0999-Q4'' ''1000-Q1'' = Inr [''999-Q4'', ''1000-Q1'']"
    using quarter_range_rendered[OF p1 p2 o] e by simp
  have m: "quarter_match ''999-Q4'' = None" by code_simp
  then have i: "isl (parse_quarter ''999-Q4'')" by (simp add: parse_quarter_def)
  show ?thesis using p1 p2 s r m i by blast
qed

subsection \<open>The row projection\<close>

lemma py_strip_Nil [simp]: "py_strip [] = []"
  by (simp add: py_strip_def)

lemma strip_blank: "py_strip ''  '' = []"
  by code_simp

lemma strip_123: "py_strip ''123'' = ''123''"
  by code_simp


lemma strip_12345: "py_strip ''12345'' = ''12345''"
  by code_simp

lemma strip_date: "py_strip ''2025-06-30'' = ''2025-06-30''"
  by code_simp


lemma project_rec_one:
  "project_record hdr_one rec_one 2025 3 ''2025-Q3'' ''u'' = Some row_one"
proof -
  have k: "key_field rec_one ''CU_NUMBER'' ''CU_Number'' = ''12345''"
    by (simp add: key_field_def py_or_def truthy_def record_get_def rec_one_def strip_12345)
  have c: "key_field rec_one ''CYCLE_DATE'' ''Cycle_Date'' = ''2025-06-30''"
    by (simp add: key_field_def py_or_def truthy_def record_get_def rec_one_def strip_date)
  show ?thesis by (simp add: project_record_def k c row_one_def)
qed

lemma spread_apply:
  "spread headers r row0 h =
     (if h \<in> set headers \<and> h \<notin> KEY_COLUMNS then Some (cell_value r h) else row0 h)"
  unfolding spread_def
  by (induction headers arbitrary: row0) auto

lemma dom_spread: "dom (spread headers r row0) = dom row0 \<union> (set headers - KEY_COLUMNS)"
  by (auto simp: spread_apply dom_def)

lemma key_field_chosen: "key_field r ''CU_NUMBER'' ''CU_Number'' = py_strip (chosen_id r)"
  by (auto simp: key_field_def chosen_id_def py_or_def truthy_def record_get_def
           split: option.splits)

lemma project_record_None:
  "project_record headers r y q p u = None \<longleftrightarrow> py_strip (chosen_id r) = []"
  by (simp add: project_record_def key_field_chosen Let_def)

text \<open>
  Claim C3. In a projected row, every header outside \<^verbatim>\<open>KEY_COLUMNS\<close> carries the value of
  the record under that header unchanged, the empty string (and a missing value) as
  null; and the columns of the row are exactly \<^verbatim>\<open>cu_number\<close>, \<^verbatim>\<open>cycle_date\<close>, \<^verbatim>\<open>year\<close>,
  \<^verbatim>\<open>quarter\<close>, \<^verbatim>\<open>period\<close>, \<^verbatim>\<open>source_url\<close> and the headers outside \<^verbatim>\<open>KEY_COLUMNS\<close>.
\<close>

theorem projected_row_columns:
  assumes "project_record headers r year quarter period source_url = Some row"
  shows "(\<forall>h \<in> set headers. h \<notin> KEY_COLUMNS \<longrightarrow>
            row h = Some (case r h of Some (Some v) \<Rightarrow> if v = [] then Null else Text v
                                    | _ \<Rightarrow> Null))
         \<and> dom row = {''cu_number'', ''cycle_date'', ''year'', ''quarter'', ''period'', ''source_url''}
                      \<union> (set headers - KEY_COLUMNS)"
proof -
  define row0 :: row where
    "row0 = [''cu_number'' \<mapsto> Text (key_field r ''CU_NUMBER'' ''CU_Number''),
             ''cycle_date'' \<mapsto> (if key_field r ''CYCLE_DATE'' ''Cycle_Date'' \<noteq> []
                                  then Text (key_field r ''CYCLE_DATE'' ''Cycle_Date'') else Null),
             ''year'' \<mapsto> Num year, ''quarter'' \<mapsto> Num quarter,
             ''period'' \<mapsto> Text period, ''source_url'' \<mapsto> Text source_url]"
  have row: "row = spread headers r row0"
    using assms by (simp add: project_record_def Let_def row0_def split: if_splits)
  have d: "dom row0 = {''cu_number'', ''cycle_date'', ''year'', ''quarter'', ''period'', ''source_url''}"
    by (auto simp: row0_def)
  have "\<forall>h \<in> set headers. h \<notin> KEY_COLUMNS \<longrightarrow>
            row h = Some (case r h of Some (Some v) \<Rightarrow> if v = [] then Null else Text v
                                    | _ \<Rightarrow> Null)"
    by (auto simp: row spread_apply cell_value_def split: option.splits)
  moreover have "dom row = {''cu_number'', ''cycle_date'', ''year'', ''quarter'', ''period'', ''source_url''}
                      \<union> (set headers - KEY_COLUMNS)"
    by (simp add: row dom_spread d)
  ultimately show ?thesis by blast
qed

theorem projected_row_columns_witness:
  "project_record hdr_one rec_one 2025 3 ''2025-Q3'' ''u'' = Some row_one
   \<and> row_one ''ASSETS'' = Some (Text ''1000000'')
   \<and> row_one ''NOTE'' = Some Null
   \<and> dom row_one = {''cu_number'', ''cycle_date'', ''year'', ''quarter'', ''period'', ''source_url'',
                     ''CU_NUMBER'', ''CYCLE_DATE'', ''ASSETS'', ''NOTE''}"
proof -
  note t = projected_row_columns[OF project_rec_one]
  have a: "row_one ''ASSETS'' = Some (Text ''1000000'')"
    using t by (simp add: hdr_one_def rec_one_def KEY_COLUMNS_def)
  have n: "row_one ''NOTE'' = Some Null"
    using t by (simp add: hdr_one_def rec_one_def KEY_COLUMNS_def)
  have d: "dom row_one = {''cu_number'', ''cycle_date'', ''year'', ''quarter'', ''period'', ''source_url'',
                     ''CU_NUMBER'', ''CYCLE_DATE'', ''ASSETS'', ''NOTE''}"
    using t by (auto simp: hdr_one_def KEY_COLUMNS_def)
  show ?thesis using project_rec_one a n d by blast
qed

text \<open>
  Claim C10. When the value under \<^verbatim>\<open>CU_NUMBER\<close> is a non-empty string of white space
  only, the institution number is that value trimmed, whatever \<^verbatim>\<open>CU_Number\<close> holds: the
  record is dropped.
\<close>

theorem whitespace_primary_no_fallback:
  assumes "r ''CU_NUMBER'' = Some (Some s)" and "s \<noteq> []" and "py_strip s = []"
  shows "key_field r ''CU_NUMBER'' ''CU_Number'' = py_strip s
         \<and> project_record headers r year quarter period source_url = None
         \<and> project_rows headers [r] year quarter period source_url = []"
proof -
  have c: "chosen_id r = s" using assms(1,2) by (simp add: chosen_id_def)
  then have "project_record headers r year quarter period source_url = None"
    using assms(3) by (simp add: project_record_None)
  then show ?thesis using c by (simp add: key_field_chosen)
qed

theorem whitespace_primary_no_fallback_witness:
  "rec_blank_primary ''CU_NUMBER'' = Some (Some ''  '') \<and> ''  '' \<noteq> ([] :: string) \<and> py_strip ''  '' = []
   \<and> rec_blank_primary ''CU_Number'' = Some (Some ''123'')
   \<and> project_record [''CU_NUMBER'', ''CU_Number''] rec_blank_primary 2025 3 ''2025-Q3'' ''u'' = None"
proof -
  have a: "rec_blank_primary ''CU_NUMBER'' = Some (Some ''  '')" by (simp add: rec_blank_primary_def)
  have b: "''  '' \<noteq> ([] :: string)" by simp
  have c: "rec_blank_primary ''CU_Number'' = Some (Some ''123'')" by (simp add: rec_blank_primary_def)
  show ?thesis
    using whitespace_primary_no_fallback[of rec_blank_primary "''  ''" "[''CU_NUMBER'', ''CU_Number'']" 2025 3 "''2025-Q3''" "''u''", OF a b strip_blank] a b c strip_blank
    by simp
qed

lemma project_rows_Cons:
  "project_rows headers (r # rs) year quarter period source_url =
     project_rows headers [r] year quarter period source_url
     @ project_rows headers rs year quarter period source_url"
  by (simp split: option.splits)

lemma project_rows_single:
  "(py_strip (chosen_id r) = [] \<longrightarrow>
      project_rows headers [r] year quarter period source_url = [])
   \<and> (py_strip (chosen_id r) \<noteq> [] \<longrightarrow>
        (\<exists>row. project_rows headers [r] year quarter period source_url = [row]))"
proof (cases "project_record headers r year quarter period source_url")
  case None
  then show ?thesis
    using project_record_None[of headers r year quarter period source_url] by simp
next
  case (Some row)
  then show ?thesis
    using project_record_None[of headers r year quarter period source_url] by simp
qed

text \<open>
  Claim C2, as stated, fails: in a file of two records, the second of which has two
  spaces under \<^verbatim>\<open>CU_NUMBER\<close> and \<^verbatim>\<open>123\<close> under \<^verbatim>\<open>CU_Number\<close>, both records have a
  non-empty institution identifier in a recognised header variant after trimming, and
  only the first yields a row.
\<close>

theorem key_drop_counterexample:
  "\<not> spec_id_blank rec_one \<and> \<not> spec_id_blank rec_blank_primary
   \<and> project_rows hdr_one [rec_one, rec_blank_primary] 2025 3 ''2025-Q3'' ''u'' = [row_one]"
proof -
  have "spec_variant rec_one ''CU_NUMBER'' = ''12345''"
    by (simp add: spec_variant_def rec_one_def strip_12345)
  then have a: "\<not> spec_id_blank rec_one" by (simp add: spec_id_blank_def)
  have "spec_variant rec_blank_primary ''CU_Number'' = ''123''"
    by (simp add: spec_variant_def rec_blank_primary_def strip_123)
  then have b: "\<not> spec_id_blank rec_blank_primary" by (simp add: spec_id_blank_def)
  have "chosen_id rec_blank_primary = ''  ''"
    by (simp add: chosen_id_def rec_blank_primary_def)
  then have "project_record hdr_one rec_blank_primary 2025 3 ''2025-Q3'' ''u'' = None"
    by (simp add: project_record_None strip_blank)
  then have "project_rows hdr_one [rec_one, rec_blank_primary] 2025 3 ''2025-Q3'' ''u'' = [row_one]"
    by (simp add: project_rec_one)
  then show ?thesis using a b by simp
qed

text \<open>
  Claim C2, amended. The institution number of a record is the value under \<^verbatim>\<open>CU_NUMBER\<close>
  unless that is missing or the empty string, in which case it is the value under
  \<^verbatim>\<open>CU_Number\<close>. The rows projected from a file are the rows of its records, record by
  record and in order: a record whose institution number is empty after trimming
  yields no row, every other record yields exactly one row; so the number of rows is
  the number of records whose institution number is not empty after trimming.
\<close>

theorem key_drop_amended:
  "project_rows headers rs year quarter period source_url =
     concat (map (\<lambda>r. project_rows headers [r] year quarter period source_url) rs)
   \<and> (\<forall>r. (py_strip (chosen_id r) = [] \<longrightarrow>
              project_rows headers [r] year quarter period source_url = [])
          \<and> (py_strip (chosen_id r) \<noteq> [] \<longrightarrow>
               (\<exists>row. project_rows headers [r] year quarter period source_url = [row])))
   \<and> length (project_rows headers rs year quarter period source_url) =
       length (filter (\<lambda>r. py_strip (chosen_id r) \<noteq> []) rs)"
proof -
  have c: "project_rows headers rs year quarter period source_url =
     concat (map (\<lambda>r. project_rows headers [r] year quarter period source_url) rs)"
  proof (induction rs)
    case Nil
    then show ?case by simp
  next
    case (Cons r rs)
    then show ?case
      using project_rows_Cons[of headers r rs year quarter period source_url] by simp
  qed
  have l: "length (project_rows headers rs year quarter period source_url) =
       length (filter (\<lambda>r. py_strip (chosen_id r) \<noteq> []) rs)"
  proof (induction rs)
    case Nil
    then show ?case by simp
  next
    case (Cons r rs)
    show ?case
    proof (cases "py_strip (chosen_id r) = []")
      case True
      then have "project_rows headers [r] year quarter period source_url = []"
        using project_rows_single by blast
      then show ?thesis
        using Cons True project_rows_Cons[of headers r rs year quarter period source_url]
        by simp
    next
      case False
      then obtain row where "project_rows headers [r] year quarter period source_url = [row]"
        using project_rows_single by blast
      then show ?thesis
        using Cons False project_rows_Cons[of headers r rs year quarter period source_url]
        by simp
    qed
  qed
  show ?thesis using c l project_rows_single by blast
qed

theorem key_drop_amended_witness:
  "py_strip (chosen_id (\<lambda>k. None)) = []
   \<and> py_strip (chosen_id rec_one) \<noteq> []
   \<and> py_strip (chosen_id rec_blank_primary) = []
   \<and> length (project_rows hdr_one [\<lambda>k. None, rec_one, rec_blank_primary] 2025 3 ''2025-Q3'' ''u'') = 1
   \<and> project_rows hdr_one [rec_blank_primary] 2025 3 ''2025-Q3'' ''u'' = []
   \<and> (\<exists>row. project_rows hdr_one [rec_one] 2025 3 ''2025-Q3'' ''u'' = [row])"
proof -
  have a: "py_strip (chosen_id (\<lambda>k. None)) = []"
    by (simp add: chosen_id_def)
  have b: "py_strip (chosen_id rec_one) \<noteq> []"
    by (simp add: chosen_id_def rec_one_def strip_12345)
  have c: "py_strip (chosen_id rec_blank_primary) = []"
    by (simp add: chosen_id_def rec_blank_primary_def strip_blank)
  note t = key_drop_amended[of hdr_one "[\<lambda>k. None, rec_one, rec_blank_primary]"
             2025 3 "''2025-Q3''" "''u''"]
  have "length (project_rows hdr_one [\<lambda>k. None, rec_one, rec_blank_primary] 2025 3 ''2025-Q3'' ''u'') =
        length (filter (\<lambda>r. py_strip (chosen_id r) \<noteq> []) [\<lambda>k. None, rec_one, rec_blank_primary])"
    using t by blast
  also have "\<dots> = 1"
    using a b c by simp
  finally have l: "length (project_rows hdr_one [\<lambda>k. None, rec_one, rec_blank_primary] 2025 3 ''2025-Q3'' ''u'') = 1" .
  have d: "project_rows hdr_one [rec_blank_primary] 2025 3 ''2025-Q3'' ''u'' = []"
    using t c by blast
  have e: "\<exists>row. project_rows hdr_one [rec_one] 2025 3 ''2025-Q3'' ''u'' = [row]"
    using t b by blast
  show ?thesis using a b c l d e by blast
qed

subsection \<open>The backend calls and the loops\<close>

lemma no_raise_tl: "no_raise fs \<Longrightarrow> no_raise (tl fs)"
  by (cases fs) (auto simp: no_raise_def)

lemma no_raise_drop: "no_raise fs \<Longrightarrow> no_raise (drop n fs)"
  by (auto simp: no_raise_def list_all_iff dest: in_set_dropD)

lemma no_raise_Nil [simp]: "no_raise []"
  by (simp add: no_raise_def)

text \<open>One backend call: what it logs, what it consumes, what it leaves alone.\<close>

lemma next_fault_fields:
  "faults (snd (next_fault w)) = tl (faults w)"
  "calls (snd (next_fault w)) = calls w"
  "printed (snd (next_fault w)) = printed w"
  "filesys (snd (next_fault w)) = filesys w"
  "net (snd (next_fault w)) = net w"
  "db_rows (snd (next_fault w)) = db_rows w"
  "db_columns (snd (next_fault w)) = db_columns w"
  "fst (next_fault w) = (case faults w of [] \<Rightarrow> NoFault | f # _ \<Rightarrow> f)"
  by (auto simp: next_fault_def split: list.splits)

lemma get_column_names_fields:
  "faults (snd (rpc_get_column_names t w)) = tl (faults w)"
  "calls (snd (rpc_get_column_names t w)) = calls w @ [GetColumnNames t]"
  "printed (snd (rpc_get_column_names t w)) = printed w"
  "filesys (snd (rpc_get_column_names t w)) = filesys w"
  "net (snd (rpc_get_column_names t w)) = net w"
  "db_rows (snd (rpc_get_column_names t w)) = db_rows w"
  "db_columns (snd (rpc_get_column_names t w)) = db_columns w"
  by (auto simp: rpc_get_column_names_def next_fault_def log_call_def split: list.splits fault.splits)

lemma add_text_column_fields:
  "faults (snd (rpc_add_text_column t c w)) = tl (faults w)"
  "calls (snd (rpc_add_text_column t c w)) = calls w @ [AddTextColumn t c]"
  "printed (snd (rpc_add_text_column t c w)) = printed w"
  "filesys (snd (rpc_add_text_column t c w)) = filesys w"
  "net (snd (rpc_add_text_column t c w)) = net w"
  "db_rows (snd (rpc_add_text_column t c w)) = db_rows w"
  by (auto simp: rpc_add_text_column_def next_fault_def log_call_def split: list.splits fault.splits)

lemma reload_fields:
  "faults (snd (rpc_reload_schema_cache w)) = tl (faults w)"
  "calls (snd (rpc_reload_schema_cache w)) = calls w @ [ReloadSchemaCache]"
  "printed (snd (rpc_reload_schema_cache w)) = printed w"
  "filesys (snd (rpc_reload_schema_cache w)) = filesys w"
  "net (snd (rpc_reload_schema_cache w)) = net w"
  "db_rows (snd (rpc_reload_schema_cache w)) = db_rows w"
  "db_columns (snd (rpc_reload_schema_cache w)) = db_columns w"
  by (auto simp: rpc_reload_schema_cache_def next_fault_def log_call_def split: list.splits fault.splits)

lemma table_upsert_fields:
  "faults (snd (table_upsert t b w)) = tl (faults w)"
  "calls (snd (table_upsert t b w)) = calls w @ [Upsert t b]"
  "printed (snd (table_upsert t b w)) = printed w"
  "filesys (snd (table_upsert t b w)) = filesys w"
  "net (snd (table_upsert t b w)) = net w"
  "db_columns (snd (table_upsert t b w)) = db_columns w"
  by (auto simp: table_upsert_def next_fault_def log_call_def split: list.splits fault.splits)

lemma get_column_names_result:
  "no_raise (faults w) \<Longrightarrow>
   fst (rpc_get_column_names t w) =
     Inr (case faults w of RespError c # _ \<Rightarrow> None | _ \<Rightarrow> Some (db_columns w t))"
  by (auto simp: rpc_get_column_names_def next_fault_def log_call_def no_raise_def
           split: list.splits fault.splits)

lemma add_text_column_result:
  "no_raise (faults w) \<Longrightarrow> fst (rpc_add_text_column t c w) = Inr ()"
  by (auto simp: rpc_add_text_column_def next_fault_def log_call_def no_raise_def
           split: list.splits fault.splits)

lemma reload_result:
  "no_raise (faults w) \<Longrightarrow> fst (rpc_reload_schema_cache w) = Inr ()"
  by (auto simp: rpc_reload_schema_cache_def next_fault_def log_call_def no_raise_def
           split: list.splits fault.splits)

lemma table_upsert_result:
  "no_raise (faults w) \<Longrightarrow>
   fst (table_upsert t b w) = Inr (case faults w of RespError c # _ \<Rightarrow> Some c | _ \<Rightarrow> None)"
  by (auto simp: table_upsert_def next_fault_def log_call_def no_raise_def
           split: list.splits fault.splits)

lemma table_upsert_rows:
  "db_rows (snd (table_upsert t b w)) =
     (case faults w of
        Raise c # _ \<Rightarrow> db_rows w
      | RespError c # _ \<Rightarrow> db_rows w
      | _ \<Rightarrow> (db_rows w)(t := upsert_batch b (db_rows w t)))"
  by (auto simp: table_upsert_def next_fault_def log_call_def split: list.splits fault.splits)

text \<open>The loop that adds columns.\<close>

lemma add_columns_ok:
  "no_raise (faults w) \<Longrightarrow>
   fst (add_columns t cols w) = Inr ()
   \<and> calls (snd (add_columns t cols w)) = calls w @ map (AddTextColumn t) cols
   \<and> faults (snd (add_columns t cols w)) = drop (length cols) (faults w)
   \<and> printed (snd (add_columns t cols w)) = printed w
   \<and> filesys (snd (add_columns t cols w)) = filesys w
   \<and> net (snd (add_columns t cols w)) = net w
   \<and> db_rows (snd (add_columns t cols w)) = db_rows w"
proof (induction cols arbitrary: w)
  case Nil
  then show ?case by simp
next
  case (Cons c cols)
  obtain w' where s: "rpc_add_text_column t c w = (Inr (), w')"
    using add_text_column_result[OF Cons.prems, of t c] by (cases "rpc_add_text_column t c w") auto
  have f: "faults w' = tl (faults w)" "calls w' = calls w @ [AddTextColumn t c]"
    "printed w' = printed w" "filesys w' = filesys w" "net w' = net w" "db_rows w' = db_rows w"
    using add_text_column_fields[of t c w] s by simp_all
  have "no_raise (faults w')" using f(1) Cons.prems by (simp add: no_raise_tl)
  from Cons.IH[OF this] show ?case
    using s f by (simp add: drop_Suc)
qed

text \<open>Reconciliation when no call raises.\<close>

lemma ensure_columns_ok:
  fixes w :: world and t :: string and hs :: "string list"
  assumes "no_raise (faults w)"
  defines "missing \<equiv> new_columns (listed_columns w t) hs"
  shows "fst (ensure_columns t hs w) = Inr ()
    \<and> calls (snd (ensure_columns t hs w)) = calls w @ reconcile_calls t missing
    \<and> faults (snd (ensure_columns t hs w)) =
           drop (if missing = [] then 1 else length missing + 2) (faults w)
    \<and> printed (snd (ensure_columns t hs w)) =
           printed w @ (if missing = [] then [] else [MsgAdding (length missing) t])
    \<and> filesys (snd (ensure_columns t hs w)) = filesys w
    \<and> net (snd (ensure_columns t hs w)) = net w
    \<and> db_rows (snd (ensure_columns t hs w)) = db_rows w"
proof -
  obtain w1 where s1: "rpc_get_column_names t w = (Inr (listed_columns w t), w1)"
    using get_column_names_result[OF assms(1), of t]
    by (cases "rpc_get_column_names t w") (auto simp: listed_columns_def)
  have f1: "faults w1 = tl (faults w)" "calls w1 = calls w @ [GetColumnNames t]"
    "printed w1 = printed w" "filesys w1 = filesys w" "net w1 = net w" "db_rows w1 = db_rows w"
    using get_column_names_fields[of t w] s1 by simp_all
  have n1: "no_raise (faults w1)" using f1(1) assms(1) by (simp add: no_raise_tl)
  show ?thesis
  proof (cases "missing = []")
    case True
    then have e: "ensure_columns t hs w = (Inr (), w1)"
      using s1 by (simp add: ensure_columns_def missing_def)
    show ?thesis
      using True f1 by (simp add: e reconcile_calls_def drop_Suc)
  next
    case False
    let ?w1' = "print (MsgAdding (length missing) t) w1"
    have n1': "no_raise (faults ?w1')" using n1 by (simp add: print_def)
    note a = add_columns_ok[OF n1', of t missing]
    obtain w2 where s2: "add_columns t missing ?w1' = (Inr (), w2)"
      using a by (cases "add_columns t missing ?w1'") auto
    have f2: "faults w2 = drop (length missing) (faults w1)"
      "calls w2 = calls w1 @ map (AddTextColumn t) missing"
      "printed w2 = printed w1 @ [MsgAdding (length missing) t]"
      "filesys w2 = filesys w1" "net w2 = net w1" "db_rows w2 = db_rows w1"
      using a s2 by (simp_all add: print_def)
    have n2: "no_raise (faults w2)" using f2(1) n1 by (simp add: no_raise_drop)
    obtain w3 where s3: "rpc_reload_schema_cache w2 = (Inr (), w3)"
      using reload_result[OF n2] by (cases "rpc_reload_schema_cache w2") auto
    have f3: "faults w3 = tl (faults w2)" "calls w3 = calls w2 @ [ReloadSchemaCache]"
      "printed w3 = printed w2" "filesys w3 = filesys w2" "net w3 = net w2" "db_rows w3 = db_rows w2"
      using reload_fields[of w2] s3 by simp_all
    have e: "ensure_columns t hs w = (Inr (), sleep 1 w3)"
      using s1 s2 s3 False by (simp add: ensure_columns_def missing_def)
    have d: "tl (drop (length missing) (tl (faults w))) = drop (length missing + 2) (faults w)"
      by (simp add: drop_Suc tl_drop)
    show ?thesis
      using False f1 f2 f3 d by (simp add: e sleep_def log_call_def reconcile_calls_def)
  qed
qed

text \<open>The batch loop when no call raises.\<close>

lemma batch_index: "k * BATCH_SIZE < length rows \<longleftrightarrow> k < n_batches rows"
proof -
  have "(length rows + 199) div 200 < Suc k \<longleftrightarrow> length rows + 199 < Suc k * 200"
    by (rule div_less_iff_less_mult) simp
  then show ?thesis
    unfolding n_batches_def BATCH_SIZE_def by auto
qed

lemma batches_drop:
  "drop k (batches rows) =
     map (\<lambda>j. take BATCH_SIZE (drop (j * BATCH_SIZE) rows)) [k ..< n_batches rows]"
  by (simp add: batches_def drop_map)

lemma error_causes_append: "error_causes (xs @ ys) = error_causes xs @ error_causes ys"
  by (induction xs rule: error_causes.induct) auto

lemma error_causes_take_Suc:
  "error_causes (take (Suc n) xs) = error_causes (take 1 xs) @ error_causes (take n (tl xs))"
proof (cases xs)
  case Nil
  then show ?thesis by simp
next
  case (Cons x ys)
  have "error_causes (x # take n ys) = error_causes [x] @ error_causes (take n ys)"
    by (cases x) simp_all
  then show ?thesis using Cons by simp
qed

lemma error_causes_take1:
  "error_causes (take 1 fs) =
     (case fs of RespError c # _ \<Rightarrow> if c \<noteq> [] then [c] else [] | _ \<Rightarrow> [])"
  by (auto split: list.splits fault.splits)

lemma upsert_loop_step:
  assumes "no_raise (faults w)" and "k * BATCH_SIZE < length rows"
  shows "\<exists>w'. upsert_loop t rows (k * BATCH_SIZE) e w =
              upsert_loop t rows (Suc k * BATCH_SIZE)
                (e + length (error_causes (take 1 (faults w)))) w'
            \<and> faults w' = tl (faults w)
            \<and> calls w' = calls w @ [Upsert t (take BATCH_SIZE (drop (k * BATCH_SIZE) rows))]
            \<and> printed w' = printed w @ map (MsgUpsertError t) (error_causes (take 1 (faults w)))
            \<and> filesys w' = filesys w \<and> net w' = net w \<and> db_columns w' = db_columns w"
proof -
  let ?b = "take BATCH_SIZE (drop (k * BATCH_SIZE) rows)"
  let ?r = "case faults w of RespError c # _ \<Rightarrow> Some c | _ \<Rightarrow> None"
  obtain w1 where s: "table_upsert t ?b w = (Inr ?r, w1)"
    using table_upsert_result[OF assms(1), of t ?b] by (cases "table_upsert t ?b w") auto
  have f: "faults w1 = tl (faults w)" "calls w1 = calls w @ [Upsert t ?b]"
    "printed w1 = printed w" "filesys w1 = filesys w" "net w1 = net w"
    "db_columns w1 = db_columns w"
    using table_upsert_fields[of t ?b w] s by simp_all
  have sk: "k * BATCH_SIZE + BATCH_SIZE = Suc k * BATCH_SIZE" by simp
  show ?thesis
  proof (cases "error_causes (take 1 (faults w))")
    case Nil
    then have r: "?r = None \<or> ?r = Some []"
      unfolding error_causes_take1 by (auto split: list.splits fault.splits if_splits)
    have "upsert_loop t rows (k * BATCH_SIZE) e w =
          upsert_loop t rows (k * BATCH_SIZE + BATCH_SIZE) e w1"
      using r
    proof
      assume "?r = None"
      then show ?thesis using assms(2) s by (subst upsert_loop.simps) simp
    next
      assume "?r = Some []"
      then show ?thesis using assms(2) s by (subst upsert_loop.simps) simp
    qed
    then have "upsert_loop t rows (k * BATCH_SIZE) e w =
          upsert_loop t rows (Suc k * BATCH_SIZE) (e + length (error_causes (take 1 (faults w)))) w1"
      unfolding sk using Nil by simp
    then show ?thesis using f Nil by auto
  next
    case (Cons c cs)
    then have r: "?r = Some c" "c \<noteq> []" "cs = []"
      unfolding error_causes_take1 by (auto split: list.splits fault.splits if_splits)
    let ?w2 = "print (MsgUpsertError t c) w1"
    have "upsert_loop t rows (k * BATCH_SIZE) e w =
          upsert_loop t rows (k * BATCH_SIZE + BATCH_SIZE) (e + 1) ?w2"
      using assms(2) s r by (subst upsert_loop.simps) simp
    then have "upsert_loop t rows (k * BATCH_SIZE) e w =
          upsert_loop t rows (Suc k * BATCH_SIZE) (e + length (error_causes (take 1 (faults w)))) ?w2"
      unfolding sk using Cons r by simp
    moreover have "faults ?w2 = tl (faults w)" "calls ?w2 = calls w @ [Upsert t ?b]"
      "printed ?w2 = printed w @ map (MsgUpsertError t) (error_causes (take 1 (faults w)))"
      "filesys ?w2 = filesys w" "net ?w2 = net w" "db_columns ?w2 = db_columns w"
      using f Cons r by (simp_all add: print_def)
    ultimately show ?thesis by blast
  qed
qed

lemma upsert_loop_ok:
  "no_raise (faults w) \<Longrightarrow>
   fst (upsert_loop t rows (k * BATCH_SIZE) e w) =
     Inr (e + length (error_causes (take (n_batches rows - k) (faults w))))
   \<and> calls (snd (upsert_loop t rows (k * BATCH_SIZE) e w)) =
       calls w @ map (Upsert t) (drop k (batches rows))
   \<and> faults (snd (upsert_loop t rows (k * BATCH_SIZE) e w)) =
       drop (n_batches rows - k) (faults w)
   \<and> printed (snd (upsert_loop t rows (k * BATCH_SIZE) e w)) =
       printed w @ map (MsgUpsertError t) (error_causes (take (n_batches rows - k) (faults w)))
   \<and> filesys (snd (upsert_loop t rows (k * BATCH_SIZE) e w)) = filesys w
   \<and> net (snd (upsert_loop t rows (k * BATCH_SIZE) e w)) = net w
   \<and> db_columns (snd (upsert_loop t rows (k * BATCH_SIZE) e w)) = db_columns w"
proof (induction "n_batches rows - k" arbitrary: k e w)
  case 0
  then have "\<not> k * BATCH_SIZE < length rows" by (simp add: batch_index)
  then have "upsert_loop t rows (k * BATCH_SIZE) e w = (Inr e, w)"
    by (subst upsert_loop.simps) simp
  then show ?case using 0 by (simp add: batches_drop)
next
  case (Suc n)
  then have lt: "k < n_batches rows" by simp
  then have c: "k * BATCH_SIZE < length rows" by (simp add: batch_index)
  let ?b = "take BATCH_SIZE (drop (k * BATCH_SIZE) rows)"
  let ?e' = "e + length (error_causes (take 1 (faults w)))"
  obtain w' where u: "upsert_loop t rows (k * BATCH_SIZE) e w =
                      upsert_loop t rows (Suc k * BATCH_SIZE) ?e' w'"
    and f: "faults w' = tl (faults w)" "calls w' = calls w @ [Upsert t ?b]"
      "printed w' = printed w @ map (MsgUpsertError t) (error_causes (take 1 (faults w)))"
      "filesys w' = filesys w" "net w' = net w" "db_columns w' = db_columns w"
    using upsert_loop_step[OF Suc.prems c, of t e] by blast
  have n': "no_raise (faults w')" using f(1) Suc.prems by (simp add: no_raise_tl)
  have m: "n = n_batches rows - Suc k" using Suc(2) by simp
  have nk: "n_batches rows - k = Suc n" using Suc(2) by simp
  have dr: "drop k (batches rows) = ?b # drop (Suc k) (batches rows)"
    using lt by (simp add: batches_drop upt_conv_Cons)
  note ect = error_causes_take_Suc[of n "faults w"]
  have dn: "drop (Suc n) (faults w) = drop n (tl (faults w))" by (simp add: drop_Suc)
  note IH = Suc(1)[OF m n', of ?e', folded m, unfolded f]
  have 1: "fst (upsert_loop t rows (k * BATCH_SIZE) e w) =
     Inr (e + length (error_causes (take (n_batches rows - k) (faults w))))"
    unfolding u nk ect using IH by simp
  have 2: "calls (snd (upsert_loop t rows (k * BATCH_SIZE) e w)) =
       calls w @ map (Upsert t) (drop k (batches rows))"
    unfolding u dr using IH by simp
  have 3: "faults (snd (upsert_loop t rows (k * BATCH_SIZE) e w)) =
       drop (n_batches rows - k) (faults w)"
    unfolding u nk dn using IH by simp
  have 4: "printed (snd (upsert_loop t rows (k * BATCH_SIZE) e w)) =
       printed w @ map (MsgUpsertError t) (error_causes (take (n_batches rows - k) (faults w)))"
    unfolding u nk ect using IH by simp
  have 5: "filesys (snd (upsert_loop t rows (k * BATCH_SIZE) e w)) = filesys w"
    "net (snd (upsert_loop t rows (k * BATCH_SIZE) e w)) = net w"
    "db_columns (snd (upsert_loop t rows (k * BATCH_SIZE) e w)) = db_columns w"
    unfolding u using IH by simp_all
  show ?case using 1 2 3 4 5 by blast
qed

text \<open>Per-file ingestion.\<close>

lemma batches_all: "drop 0 (batches rows) = batches rows"
  by simp

lemma ingest_file_absent:
  "filesys w path = None \<Longrightarrow>
   ingest_file path t y q p u w = (Inr 0, print (MsgNotFound (basename path)) w)"
  by (simp add: ingest_file_def)

lemma ingest_file_reconcile_raises:
  "filesys w path = Some (hs, recs) \<Longrightarrow> ensure_columns t hs w = (Inl e, w') \<Longrightarrow>
   ingest_file path t y q p u w = (Inl e, w')"
  by (simp add: ingest_file_def)

lemma ingest_file_ok:
  fixes w :: world and t path p u :: string and y q :: int and hs :: "string list"
    and recs :: "csv_record list"
  assumes "no_raise (faults w)" and "filesys w path = Some (hs, recs)"
  defines "missing \<equiv> new_columns (listed_columns w t) hs"
    and "rows \<equiv> project_rows hs recs y q p u"
  defines "causes \<equiv> error_causes (take (n_batches rows)
                        (drop (if missing = [] then 1 else length missing + 2) (faults w)))"
  shows "fst (ingest_file path t y q p u w) = Inr (length rows)
    \<and> calls (snd (ingest_file path t y q p u w)) =
        calls w @ reconcile_calls t missing @ map (Upsert t) (batches rows)
    \<and> printed (snd (ingest_file path t y q p u w)) =
        printed w @ (if missing = [] then [] else [MsgAdding (length missing) t])
          @ map (MsgUpsertError t) causes
          @ [MsgFileDone (basename path) t (length rows) (length hs) (length causes)]
    \<and> filesys (snd (ingest_file path t y q p u w)) = filesys w
    \<and> net (snd (ingest_file path t y q p u w)) = net w
    \<and> no_raise (faults (snd (ingest_file path t y q p u w)))"
proof -
  note ec = ensure_columns_ok[OF assms(1), of t hs, folded missing_def]
  obtain w1 where s1: "ensure_columns t hs w = (Inr (), w1)"
    using ec by (cases "ensure_columns t hs w") auto
  have f1: "calls w1 = calls w @ reconcile_calls t missing"
    "faults w1 = drop (if missing = [] then 1 else length missing + 2) (faults w)"
    "printed w1 = printed w @ (if missing = [] then [] else [MsgAdding (length missing) t])"
    "filesys w1 = filesys w" "net w1 = net w"
    using ec s1 by simp_all
  have n1: "no_raise (faults w1)" unfolding f1(2) using assms(1) by (rule no_raise_drop)
  note ul = upsert_loop_ok[OF n1, of t rows 0 0, simplified, unfolded f1, folded causes_def]
  obtain w2 where s2: "upsert_loop t rows 0 0 w1 = (Inr (length causes), w2)"
    using ul by (cases "upsert_loop t rows 0 0 w1") auto
  have f2: "calls w2 = (calls w @ reconcile_calls t missing) @ map (Upsert t) (batches rows)"
    "printed w2 = (printed w @ (if missing = [] then [] else [MsgAdding (length missing) t]))
                   @ map (MsgUpsertError t) causes"
    "filesys w2 = filesys w" "net w2 = net w"
    "faults w2 = drop (n_batches rows) (drop (if missing = [] then 1 else length missing + 2) (faults w))"
    using ul s2 by simp_all
  have n2: "no_raise (faults w2)"
    unfolding f2(5) using assms(1) by (intro no_raise_drop)
  have i: "ingest_file path t y q p u w =
           (Inr (length rows),
            print (MsgFileDone (basename path) t (length rows) (length hs) (length causes)) w2)"
    using assms(2) s1 s2 by (simp add: ingest_file_def rows_def Let_def)
  show ?thesis
    unfolding i using f2 n2 by (simp add: print_def)
qed

text \<open>Exceptions pass through the loops over files and quarters.\<close>

lemma import_files_append:
  "import_files (xs @ ys) d y q p u n w =
     (case import_files xs d y q p u n w of
        (Inl e, w') \<Rightarrow> (Inl e, w')
      | (Inr m, w') \<Rightarrow> import_files ys d y q p u m w')"
  by (induction xs arbitrary: n w) (auto split: prod.splits sum.splits)

lemma import_files_raises:
  "ingest_file (path_join d f) t y q p u w = (Inl e, w') \<Longrightarrow>
   import_files ((f, t) # rest) d y q p u n w = (Inl e, w')"
  by simp

lemma import_quarter_files_raise:
  "parse_quarter qs = Inr (y, q) \<Longrightarrow>
   download_and_extract y q (print (MsgBanner qs) w) = (Inr (tmp, d, url), w1) \<Longrightarrow>
   import_files SOURCE_FILES d y q qs url 0 w1 = (Inl e, w2) \<Longrightarrow>
   import_quarter qs w = (Inl e, rmtree tmp w2)"
  by (simp add: import_quarter_def)

lemma import_quarter_download_raises:
  "parse_quarter qs = Inr (y, q) \<Longrightarrow>
   download_and_extract y q (print (MsgBanner qs) w) = (Inl e, w1) \<Longrightarrow>
   import_quarter qs w = (Inl e, w1)"
  by (simp add: import_quarter_def)

lemma main_loop_raises:
  "import_quarter q w = (Inl e, w') \<Longrightarrow> main_loop (q # qs) n w = (Inl e, w')"
  by simp

lemma main_raises:
  "requested_quarters args = Inr quarters \<Longrightarrow>
   main_loop quarters 0 (print (MsgQuarters quarters) w) = (Inl e, w') \<Longrightarrow>
   main args w = (Inl e, w')"
  by (simp add: main_def)


lemma concat_slices:
  "concat (map (\<lambda>k. take b (drop (k * b) xs)) [0 ..< n]) = take (n * b) xs"
proof (induction n)
  case 0
  then show ?case by simp
next
  case (Suc n)
  have "take (Suc n * b) xs = take (n * b) xs @ take b (drop (n * b) xs)"
    using take_add[of "n * b" b xs] by (simp add: add.commute)
  then show ?case using Suc by simp
qed

lemma concat_batches: "concat (batches rows) = rows"
proof -
  have "\<not> n_batches rows * BATCH_SIZE < length rows"
    using batch_index[of "n_batches rows" rows] by simp
  then show ?thesis
    by (simp add: batches_def concat_slices)
qed


lemma new_columns_set:
  "set (new_columns data hs) =
     set hs - (case data of None \<Rightarrow> {} | Some cols \<Rightarrow> set cols) - KEY_COLUMNS"
  by (auto simp: new_columns_def)

lemma new_columns_distinct: "distinct hs \<Longrightarrow> distinct (new_columns data hs)"
  by (simp add: new_columns_def)

subsection \<open>Column reconciliation\<close>

lemma no_raise_world0: "no_raise (faults world0)"
  by (simp add: world0_def)

lemma no_raise_world_known: "no_raise (faults world_known)"
  by (simp add: world_known_def world0_def)

text \<open>
  Claim C4, as stated, fails in two places. When nothing is missing, reconciliation
  has still made a registry call, the listing of the table's columns. When the header
  line repeats a name that is missing, \<^verbatim>\<open>add_text_column\<close> is called once per
  occurrence, twice for the one missing name \<^verbatim>\<open>A\<close>.
\<close>

theorem reconcile_counterexample:
  "new_columns (listed_columns world_known ''bronze_foicu'') hdr_one = []
   \<and> calls (snd (ensure_columns ''bronze_foicu'' hdr_one world_known)) =
       [GetColumnNames ''bronze_foicu'']
   \<and> new_columns (listed_columns world0 ''bronze_foicu'') [''A'', ''A''] = [''A'', ''A'']
   \<and> calls (snd (ensure_columns ''bronze_foicu'' [''A'', ''A''] world0)) =
       [GetColumnNames ''bronze_foicu'', AddTextColumn ''bronze_foicu'' ''A'',
        AddTextColumn ''bronze_foicu'' ''A'', ReloadSchemaCache, Sleep 1]"
proof -
  have a: "new_columns (listed_columns world_known ''bronze_foicu'') hdr_one = []"
    by (simp add: new_columns_def listed_columns_def world_known_def world0_def)
  have b: "new_columns (listed_columns world0 ''bronze_foicu'') [''A'', ''A''] = [''A'', ''A'']"
    by (simp add: new_columns_def listed_columns_def world0_def KEY_COLUMNS_def)
  have c: "calls world_known = []" "calls world0 = []"
    by (simp_all add: world_known_def world0_def)
  show ?thesis
    using ensure_columns_ok[OF no_raise_world_known, of "''bronze_foicu''" hdr_one]
          ensure_columns_ok[OF no_raise_world0, of "''bronze_foicu''" "[''A'', ''A'']"]
    by (simp add: a b c reconcile_calls_def)
qed

text \<open>
  Claim C4, amended. When no call raises, reconciliation makes one listing call and
  takes as missing the header entries, in header order, that are neither among the
  listed columns (none when the response carries no data) nor in \<^verbatim>\<open>KEY_COLUMNS\<close>; as a
  set this is the header names minus the listed columns minus the reserved key
  columns, without repetition when the header names are distinct. If nothing is
  missing it makes no further call. Otherwise it calls \<^verbatim>\<open>add_text_column\<close> once per
  missing entry in header order, then \<^verbatim>\<open>reload_schema_cache\<close> once, then sleeps one
  second. In \<^verbatim>\<open>ingest_file\<close> all these calls precede every upsert of the file.
\<close>

theorem reconcile_amended:
  assumes "no_raise (faults w)"
  shows "set (new_columns (listed_columns w t) hs) =
           set hs - (case listed_columns w t of None \<Rightarrow> {} | Some cols \<Rightarrow> set cols) - KEY_COLUMNS
   \<and> (distinct hs \<longrightarrow> distinct (new_columns (listed_columns w t) hs))
   \<and> (\<exists>keep. new_columns (listed_columns w t) hs = filter keep hs)
   \<and> fst (ensure_columns t hs w) = Inr ()
   \<and> calls (snd (ensure_columns t hs w)) =
       calls w @ GetColumnNames t #
         (if new_columns (listed_columns w t) hs = [] then []
          else map (AddTextColumn t) (new_columns (listed_columns w t) hs)
               @ [ReloadSchemaCache, Sleep 1])
   \<and> (\<forall>path recs y q p u. filesys w path = Some (hs, recs) \<longrightarrow>
         calls (snd (ingest_file path t y q p u w)) =
           calls w @ GetColumnNames t #
             (if new_columns (listed_columns w t) hs = [] then []
              else map (AddTextColumn t) (new_columns (listed_columns w t) hs)
                   @ [ReloadSchemaCache, Sleep 1])
             @ map (Upsert t) (batches (project_rows hs recs y q p u)))"
proof -
  have 1: "set (new_columns (listed_columns w t) hs) =
           set hs - (case listed_columns w t of None \<Rightarrow> {} | Some cols \<Rightarrow> set cols) - KEY_COLUMNS"
    by (rule new_columns_set)
  have 2: "distinct hs \<longrightarrow> distinct (new_columns (listed_columns w t) hs)"
    by (simp add: new_columns_distinct)
  have 3: "\<exists>keep. new_columns (listed_columns w t) hs = filter keep hs"
    unfolding new_columns_def Let_def by blast
  have 4: "fst (ensure_columns t hs w) = Inr ()"
    using ensure_columns_ok[OF assms, of t hs] by simp
  have 5: "calls (snd (ensure_columns t hs w)) =
       calls w @ GetColumnNames t #
         (if new_columns (listed_columns w t) hs = [] then []
          else map (AddTextColumn t) (new_columns (listed_columns w t) hs)
               @ [ReloadSchemaCache, Sleep 1])"
    using ensure_columns_ok[OF assms, of t hs] by (simp add: reconcile_calls_def)
  have 6: "\<forall>path recs y q p u. filesys w path = Some (hs, recs) \<longrightarrow>
         calls (snd (ingest_file path t y q p u w)) =
           calls w @ GetColumnNames t #
             (if new_columns (listed_columns w t) hs = [] then []
              else map (AddTextColumn t) (new_columns (listed_columns w t) hs)
                   @ [ReloadSchemaCache, Sleep 1])
             @ map (Upsert t) (batches (project_rows hs recs y q p u))"
  proof (intro allI impI)
    fix path recs y q p u
    assume f: "filesys w path = Some (hs, recs)"
    show "calls (snd (ingest_file path t y q p u w)) =
           calls w @ GetColumnNames t #
             (if new_columns (listed_columns w t) hs = [] then []
              else map (AddTextColumn t) (new_columns (listed_columns w t) hs)
                   @ [ReloadSchemaCache, Sleep 1])
             @ map (Upsert t) (batches (project_rows hs recs y q p u))"
      using ingest_file_ok[OF assms f, of t y q p u] by (simp add: reconcile_calls_def)
  qed
  show ?thesis using 1 2 3 4 5 6 by blast
qed

theorem reconcile_amended_witness:
  "no_raise (faults world0)
   \<and> calls (snd (ensure_columns ''bronze_foicu'' hdr_one world0)) =
       [GetColumnNames ''bronze_foicu'', AddTextColumn ''bronze_foicu'' ''CU_NUMBER'',
        AddTextColumn ''bronze_foicu'' ''CYCLE_DATE'', AddTextColumn ''bronze_foicu'' ''ASSETS'',
        AddTextColumn ''bronze_foicu'' ''NOTE'', ReloadSchemaCache, Sleep 1]"
proof -
  have m: "new_columns (listed_columns world0 ''bronze_foicu'') hdr_one = hdr_one"
    by (simp add: new_columns_def listed_columns_def world0_def KEY_COLUMNS_def hdr_one_def)
  have c: "calls world0 = []" by (simp add: world0_def)
  have "calls (snd (ensure_columns ''bronze_foicu'' hdr_one world0)) =
        calls world0 @ GetColumnNames ''bronze_foicu'' #
          (if new_columns (listed_columns world0 ''bronze_foicu'') hdr_one = [] then []
           else map (AddTextColumn ''bronze_foicu'')
                  (new_columns (listed_columns world0 ''bronze_foicu'') hdr_one)
                @ [ReloadSchemaCache, Sleep 1])"
    using reconcile_amended[OF no_raise_world0, of "''bronze_foicu''" hdr_one] by blast
  then have "calls (snd (ensure_columns ''bronze_foicu'' hdr_one world0)) =
        GetColumnNames ''bronze_foicu'' # map (AddTextColumn ''bronze_foicu'') hdr_one
          @ [ReloadSchemaCache, Sleep 1]"
    unfolding m c by (simp add: hdr_one_def)
  then show ?thesis
    using no_raise_world0 by (simp add: hdr_one_def)
qed

subsection \<open>The table after the batch loop\<close>

lemma upsert_loop_step_rows:
  assumes "no_raise (faults w)" and "k * BATCH_SIZE < length rows"
  shows "\<exists>w' e'. upsert_loop t rows (k * BATCH_SIZE) e w =
              upsert_loop t rows (Suc k * BATCH_SIZE) e' w'
            \<and> faults w' = tl (faults w)
            \<and> db_rows w' =
                (case faults w of
                   RespError c # _ \<Rightarrow> db_rows w
                 | _ \<Rightarrow> (db_rows w)
                         (t := upsert_batch (take BATCH_SIZE (drop (k * BATCH_SIZE) rows))
                                 (db_rows w t)))"
proof -
  let ?b = "take BATCH_SIZE (drop (k * BATCH_SIZE) rows)"
  let ?r = "case faults w of RespError c # _ \<Rightarrow> Some c | _ \<Rightarrow> None"
  obtain w1 where s: "table_upsert t ?b w = (Inr ?r, w1)"
    using table_upsert_result[OF assms(1), of t ?b] by (cases "table_upsert t ?b w") auto
  have f: "faults w1 = tl (faults w)"
    using table_upsert_fields[of t ?b w] s by simp
  have d: "db_rows w1 =
             (case faults w of
                RespError c # _ \<Rightarrow> db_rows w
              | _ \<Rightarrow> (db_rows w)(t := upsert_batch ?b (db_rows w t)))"
    using table_upsert_rows[of t ?b w] s assms(1)
    by (auto simp: no_raise_def split: list.splits fault.splits)
  have sk: "k * BATCH_SIZE + BATCH_SIZE = Suc k * BATCH_SIZE" by simp
  have "(\<exists>e'. upsert_loop t rows (k * BATCH_SIZE) e w =
              upsert_loop t rows (k * BATCH_SIZE + BATCH_SIZE) e' w1)
        \<or> (\<exists>e' m. upsert_loop t rows (k * BATCH_SIZE) e w =
              upsert_loop t rows (k * BATCH_SIZE + BATCH_SIZE) e' (print m w1))"
    using assms(2) s by (subst (1 2) upsert_loop.simps) (auto split: option.splits)
  then show ?thesis
    unfolding sk using f d by (auto simp: print_def)
qed


lemma upsert_loop_rows:
  "no_raise (faults w) \<Longrightarrow>
   db_rows (snd (upsert_loop t rows (k * BATCH_SIZE) e w)) =
     (db_rows w)(t := apply_batches (faults w) (drop k (batches rows)) (db_rows w t))"
proof (induction "n_batches rows - k" arbitrary: k e w)
  case 0
  then have "\<not> k * BATCH_SIZE < length rows" by (simp add: batch_index)
  then have "upsert_loop t rows (k * BATCH_SIZE) e w = (Inr e, w)"
    by (subst upsert_loop.simps) simp
  then show ?case using 0 by (simp add: batches_drop)
next
  case (Suc n)
  then have lt: "k < n_batches rows" by simp
  then have c: "k * BATCH_SIZE < length rows" by (simp add: batch_index)
  let ?b = "take BATCH_SIZE (drop (k * BATCH_SIZE) rows)"
  let ?T = "case faults w of RespError c # _ \<Rightarrow> db_rows w t | Raise c # _ \<Rightarrow> db_rows w t
            | _ \<Rightarrow> upsert_batch ?b (db_rows w t)"
  obtain w' e' where u: "upsert_loop t rows (k * BATCH_SIZE) e w =
                         upsert_loop t rows (Suc k * BATCH_SIZE) e' w'"
    and f: "faults w' = tl (faults w)"
    and d: "db_rows w' =
                (case faults w of
                   RespError c # _ \<Rightarrow> db_rows w
                 | _ \<Rightarrow> (db_rows w)(t := upsert_batch ?b (db_rows w t)))"
    using upsert_loop_step_rows[OF Suc.prems c, of t e] by blast
  have n': "no_raise (faults w')" using f Suc.prems by (simp add: no_raise_tl)
  have m: "n = n_batches rows - Suc k" using Suc(2) by simp
  have dr: "drop k (batches rows) = ?b # drop (Suc k) (batches rows)"
    using lt by (simp add: batches_drop upt_conv_Cons)
  have dt: "db_rows w' t = ?T"
    unfolding d using Suc.prems by (auto simp: no_raise_def split: list.splits fault.splits)
  have dx: "(db_rows w')(t := X) = (db_rows w)(t := X)" for X
    unfolding d by (auto split: list.splits fault.splits)
  have "db_rows (snd (upsert_loop t rows (k * BATCH_SIZE) e w)) =
        (db_rows w')(t := apply_batches (faults w') (drop (Suc k) (batches rows)) (db_rows w' t))"
    unfolding u using Suc(1)[OF m n'] .
  also have "\<dots> = (db_rows w)(t := apply_batches (tl (faults w)) (drop (Suc k) (batches rows)) ?T)"
    unfolding dx f dt ..
  also have "\<dots> = (db_rows w)(t := apply_batches (faults w) (drop k (batches rows)) (db_rows w t))"
    unfolding dr by simp
  finally show ?case .
qed

lemma apply_batches_no_fault: "apply_batches [] bs tbl = fold upsert_batch bs tbl"
  by (induction bs arbitrary: tbl) simp_all

lemma fold_upsert_batches: "fold upsert_batch bs tbl = fold upsert_row (concat bs) tbl"
  by (induction bs arbitrary: tbl) (simp_all add: upsert_batch_def)

lemma ingest_file_rows:
  assumes "faults w = []" and "filesys w path = Some (hs, recs)"
  shows "db_rows (snd (ingest_file path t y q p u w)) =
           (db_rows w)(t := fold upsert_row (project_rows hs recs y q p u) (db_rows w t))
         \<and> faults (snd (ingest_file path t y q p u w)) = []"
proof -
  have nr: "no_raise (faults w)" using assms(1) by simp
  note ec = ensure_columns_ok[OF nr, of t hs]
  obtain w1 where s1: "ensure_columns t hs w = (Inr (), w1)"
    using ec by (cases "ensure_columns t hs w") auto
  have f1: "faults w1 = []" "db_rows w1 = db_rows w"
    using ec s1 assms(1) by simp_all
  have n1: "no_raise (faults w1)" using f1 by simp
  let ?rows = "project_rows hs recs y q p u"
  note ul = upsert_loop_ok[OF n1, of t ?rows 0 0, simplified]
  obtain n w2 where s2: "upsert_loop t ?rows 0 0 w1 = (Inr n, w2)"
    using ul by (cases "upsert_loop t ?rows 0 0 w1") auto
  have f2: "faults w2 = []" using ul s2 f1 by simp
  have "db_rows w2 = (db_rows w1)(t := apply_batches (faults w1) (batches ?rows) (db_rows w1 t))"
    using upsert_loop_rows[OF n1, of t ?rows 0 0] s2 by simp
  then have d2: "db_rows w2 = (db_rows w)(t := fold upsert_row ?rows (db_rows w t))"
    by (simp add: f1 apply_batches_no_fault fold_upsert_batches concat_batches)
  have "ingest_file path t y q p u w =
        (Inr (length ?rows), print (MsgFileDone (basename path) t (length ?rows) (length hs) n) w2)"
    using assms(2) s1 s2 by (simp add: ingest_file_def Let_def)
  then show ?thesis using d2 f2 by (simp add: print_def)
qed

subsection \<open>Batch failures\<close>


lemma no_raise_one_failure: "no_raise (replicate k NoFault @ [RespError c])"
  by (simp add: no_raise_def list_all_iff)




subsection \<open>The result of per-file ingestion\<close>

lemma basename_foicu: "basename ''/t/data/FOICU.txt'' = ''FOICU.txt''"
  by (simp add: basename_def)

lemma rows_one: "project_rows hdr_one [rec_one] 2025 3 ''2025-Q3'' ''u'' = [row_one]"
  by (simp add: project_rec_one)

lemma ingest_file_count:
  "filesys w path = Some (hs, recs) \<Longrightarrow> ingest_file path t y q p u w = (Inr n, w') \<Longrightarrow>
   n = length (project_rows hs recs y q p u)"
  by (auto simp: ingest_file_def Let_def split: prod.splits sum.splits)

lemma ingest_file_rows_from_loop:
  "filesys w path = Some (hs, recs) \<Longrightarrow> ensure_columns t hs w = (Inr (), w1) \<Longrightarrow>
   db_rows (snd (ingest_file path t y q p u w)) =
     db_rows (snd (upsert_loop t (project_rows hs recs y q p u) 0 0 w1))"
  by (auto simp: ingest_file_def Let_def print_def split: prod.splits sum.splits)

text \<open>
  Claim C8, as stated, fails: \<^verbatim>\<open>ingest_file\<close> returns one number. For a file of one
  record it returns 1 both when the only batch fails and when it succeeds; the error
  count, 1 against 0, appears in the printed summary line only; and where the batch
  failed the returned 1 counts a row that is in no successful batch, the table being
  still empty.
\<close>

theorem ingest_result_counterexample:
  "fst (ingest_file ''/t/data/FOICU.txt'' ''bronze_foicu'' 2025 3 ''2025-Q3'' ''u'' world_fail) = Inr 1
   \<and> fst (ingest_file ''/t/data/FOICU.txt'' ''bronze_foicu'' 2025 3 ''2025-Q3'' ''u'' world_known) = Inr 1
   \<and> last (printed (snd (ingest_file ''/t/data/FOICU.txt'' ''bronze_foicu'' 2025 3 ''2025-Q3'' ''u''
                            world_fail))) = MsgFileDone ''FOICU.txt'' ''bronze_foicu'' 1 4 1
   \<and> last (printed (snd (ingest_file ''/t/data/FOICU.txt'' ''bronze_foicu'' 2025 3 ''2025-Q3'' ''u''
                            world_known))) = MsgFileDone ''FOICU.txt'' ''bronze_foicu'' 1 4 0
   \<and> db_rows (snd (ingest_file ''/t/data/FOICU.txt'' ''bronze_foicu'' 2025 3 ''2025-Q3'' ''u''
                      world_fail)) ''bronze_foicu'' = []"
proof -
  let ?t = "''bronze_foicu''" and ?p = "''/t/data/FOICU.txt''"
  have nf: "no_raise (faults world_fail)"
    by (simp add: world_fail_def no_raise_def)
  have ff: "filesys world_fail ?p = Some (hdr_one, [rec_one])"
    by (simp add: world_fail_def world_known_def archive_two_def)
  have fk: "filesys world_known ?p = Some (hdr_one, [rec_one])"
    by (simp add: world_known_def archive_two_def)
  have mf: "new_columns (listed_columns world_fail ?t) hdr_one = []"
    by (simp add: new_columns_def listed_columns_def world_fail_def world_known_def world0_def)
  have mk: "new_columns (listed_columns world_known ?t) hdr_one = []"
    by (simp add: new_columns_def listed_columns_def world_known_def world0_def)
  have nb: "n_batches [row_one] = 1" by (simp add: n_batches_def BATCH_SIZE_def)
  have cf: "error_causes (take (Suc 0) (drop (Suc 0) (faults world_fail))) = [''boom'']"
    by (simp add: world_fail_def)
  have ck: "error_causes (take (Suc 0) (drop (Suc 0) (faults world_known))) = []"
    by (simp add: world_known_def world0_def)
  note a = ingest_file_ok[OF nf ff, of ?t 2025 3 "''2025-Q3''" "''u''", unfolded rows_one mf nb,
             simplified, unfolded basename_foicu]
  note b = ingest_file_ok[OF no_raise_world_known fk, of ?t 2025 3 "''2025-Q3''" "''u''",
             unfolded rows_one mk nb, simplified, unfolded basename_foicu]
  have h: "length hdr_one = 4" by (simp add: hdr_one_def)
  have 1: "fst (ingest_file ?p ?t 2025 3 ''2025-Q3'' ''u'' world_fail) = Inr 1"
    using a by simp
  have 2: "fst (ingest_file ?p ?t 2025 3 ''2025-Q3'' ''u'' world_known) = Inr 1"
    using b by simp
  have 3: "last (printed (snd (ingest_file ?p ?t 2025 3 ''2025-Q3'' ''u'' world_fail))) =
           MsgFileDone ''FOICU.txt'' ?t 1 4 1"
    using a h cf by simp
  have 4: "last (printed (snd (ingest_file ?p ?t 2025 3 ''2025-Q3'' ''u'' world_known))) =
           MsgFileDone ''FOICU.txt'' ?t 1 4 0"
    using b h ck by simp
  define w1 where "w1 = snd (ensure_columns ?t hdr_one world_fail)"
  note ec = ensure_columns_ok[OF nf, of ?t hdr_one, unfolded mf, simplified, folded w1_def]
  have e: "ensure_columns ?t hdr_one world_fail = (Inr (), w1)"
    using ec by (simp add: w1_def prod_eq_iff)
  have f1: "faults w1 = [RespError ''boom'']" "db_rows w1 ?t = []"
    using ec by (simp_all add: world_fail_def world_known_def world0_def)
  have n1: "no_raise (faults w1)" using f1 by (simp add: no_raise_def)
  have "db_rows (snd (upsert_loop ?t [row_one] 0 0 w1)) ?t = []"
    using upsert_loop_rows[OF n1, of ?t "[row_one]" 0 0] f1
    by (simp add: batches_def nb)
  moreover have "db_rows (snd (ingest_file ?p ?t 2025 3 ''2025-Q3'' ''u'' world_fail)) =
                 db_rows (snd (upsert_loop ?t [row_one] 0 0 w1))"
    using ingest_file_rows_from_loop[OF ff e, of 2025 3 "''2025-Q3''" "''u''"]
    unfolding rows_one .
  ultimately have 5: "db_rows (snd (ingest_file ?p ?t 2025 3 ''2025-Q3'' ''u'' world_fail)) ?t = []"
    by simp
  show ?thesis using 1 2 3 4 5 by blast
qed

text \<open>
  Claim C8, amended. Per-file ingestion returns a single number: 0 when the file is
  absent, otherwise the number of projected rows, all of them submitted, whether their
  batch failed or not. The number of failed batches is printed in the summary line of
  the file and is not returned.
\<close>

theorem ingest_result_amended:
  "(filesys w path = None \<longrightarrow>
      ingest_file path t y q p u w = (Inr 0, print (MsgNotFound (basename path)) w))
   \<and> (\<forall>hs recs n w'. filesys w path = Some (hs, recs)
         \<and> ingest_file path t y q p u w = (Inr n, w') \<longrightarrow>
         n = length (project_rows hs recs y q p u))
   \<and> (\<forall>hs recs. filesys w path = Some (hs, recs) \<and> no_raise (faults w) \<longrightarrow>
         fst (ingest_file path t y q p u w) = Inr (length (project_rows hs recs y q p u))
         \<and> last (printed (snd (ingest_file path t y q p u w))) =
             MsgFileDone (basename path) t (length (project_rows hs recs y q p u)) (length hs)
               (length (error_causes
                  (take (n_batches (project_rows hs recs y q p u))
                     (faults (snd (ensure_columns t hs w)))))))"
proof -
  have 1: "filesys w path = None \<longrightarrow>
      ingest_file path t y q p u w = (Inr 0, print (MsgNotFound (basename path)) w)"
    by (simp add: ingest_file_absent)
  have 2: "\<forall>hs recs n w'. filesys w path = Some (hs, recs)
         \<and> ingest_file path t y q p u w = (Inr n, w') \<longrightarrow>
         n = length (project_rows hs recs y q p u)"
    using ingest_file_count by blast
  have 3: "\<forall>hs recs. filesys w path = Some (hs, recs) \<and> no_raise (faults w) \<longrightarrow>
         fst (ingest_file path t y q p u w) = Inr (length (project_rows hs recs y q p u))
         \<and> last (printed (snd (ingest_file path t y q p u w))) =
             MsgFileDone (basename path) t (length (project_rows hs recs y q p u)) (length hs)
               (length (error_causes
                  (take (n_batches (project_rows hs recs y q p u))
                     (faults (snd (ensure_columns t hs w))))))"
  proof (intro allI impI)
    fix hs recs
    assume a: "filesys w path = Some (hs, recs) \<and> no_raise (faults w)"
    then have f: "filesys w path = Some (hs, recs)" and n: "no_raise (faults w)" by simp_all
    show "fst (ingest_file path t y q p u w) = Inr (length (project_rows hs recs y q p u))
         \<and> last (printed (snd (ingest_file path t y q p u w))) =
             MsgFileDone (basename path) t (length (project_rows hs recs y q p u)) (length hs)
               (length (error_causes
                  (take (n_batches (project_rows hs recs y q p u))
                     (faults (snd (ensure_columns t hs w))))))"
      using ingest_file_ok[OF n f, of t y q p u] ensure_columns_ok[OF n, of t hs] by simp
  qed
  show ?thesis using 1 2 3 by blast
qed

theorem ingest_result_amended_witness:
  "filesys world_fail ''/t/data/FOICU.txt'' = Some (hdr_one, [rec_one])
   \<and> no_raise (faults world_fail)
   \<and> fst (ingest_file ''/t/data/FOICU.txt'' ''bronze_foicu'' 2025 3 ''2025-Q3'' ''u'' world_fail) =
       Inr (length (project_rows hdr_one [rec_one] 2025 3 ''2025-Q3'' ''u''))
   \<and> filesys world_fail ''/t/data/FS220A.txt'' = None
   \<and> fst (ingest_file ''/t/data/FS220A.txt'' ''bronze_fs220a'' 2025 3 ''2025-Q3'' ''u'' world_fail) =
       Inr 0"
proof -
  have nf: "no_raise (faults world_fail)"
    by (simp add: world_fail_def no_raise_def)
  have ff: "filesys world_fail ''/t/data/FOICU.txt'' = Some (hdr_one, [rec_one])"
    by (simp add: world_fail_def world_known_def archive_two_def)
  have fa: "filesys world_fail ''/t/data/FS220A.txt'' = None"
    by (simp add: world_fail_def world_known_def archive_two_def)
  note t1 = ingest_result_amended[of world_fail "''/t/data/FOICU.txt''" "''bronze_foicu''" 2025 3
              "''2025-Q3''" "''u''"]
  note t2 = ingest_result_amended[of world_fail "''/t/data/FS220A.txt''" "''bronze_fs220a''" 2025 3
              "''2025-Q3''" "''u''"]
  have a: "fst (ingest_file ''/t/data/FOICU.txt'' ''bronze_foicu'' 2025 3 ''2025-Q3'' ''u'' world_fail) =
       Inr (length (project_rows hdr_one [rec_one] 2025 3 ''2025-Q3'' ''u''))"
    using t1 ff nf by blast
  have b: "fst (ingest_file ''/t/data/FS220A.txt'' ''bronze_fs220a'' 2025 3 ''2025-Q3'' ''u'' world_fail) =
       Inr 0"
    using t2 fa by simp
  show ?thesis using nf ff fa a b by blast
qed

subsection \<open>Failure to obtain the archive of a period\<close>

lemma url_2025_09:
  "quarter_url 2025 3 =
     Inr ''https://www.ncua.gov/files/publications/analysis/call-report-data-2025-09.zip''"
  by code_simp

lemma url_2024_12:
  "quarter_url 2024 4 =
     Inr ''https://www.ncua.gov/files/publications/analysis/call-report-data-2024-12.zip''"
  by code_simp

lemma url_2025_03:
  "quarter_url 2025 1 =
     Inr ''https://www.ncua.gov/files/publications/analysis/call-report-data-2025-03.zip''"
  by code_simp

lemma parse_2025_Q3: "parse_quarter ''2025-Q3'' = Inr (2025, 3)"
  by code_simp

lemma parse_2024_Q4: "parse_quarter ''2024-Q4'' = Inr (2024, 4)"
  by code_simp

lemma parse_2025_Q1: "parse_quarter ''2025-Q1'' = Inr (2025, 1)"
  by code_simp

lemma range_2024_Q4_2025_Q1:
  "quarter_range ''2024-Q4'' ''2025-Q1'' = Inr [''2024-Q4'', ''2025-Q1'']"
proof -
  have o: "(2024::int) < 2025 \<or> ((2024::int) = 2025 \<and> (4::int) \<le> 1)" by simp
  have e: "map rendered_quarter_at [quarter_index 2024 4 .. quarter_index 2025 1] =
           [''2024-Q4'', ''2025-Q1'']" by code_simp
  show ?thesis using quarter_range_rendered[OF parse_2024_Q4 parse_2025_Q1 o] e by simp
qed

lemma download_calls:
  "download_and_extract y q w = (r, w') \<Longrightarrow>
   calls w' = calls w \<or> (\<exists>u. quarter_url y q = Inr u \<and> calls w' = calls w @ [Download u])"
  by (auto simp: download_and_extract_def Let_def log_call_def print_def
           split: sum.splits prod.splits)

lemma offline_download:
  "fst (download_and_extract 2024 4 (print (MsgBanner ''2024-Q4'')
          (print (MsgQuarters [''2024-Q4'', ''2025-Q1'']) world_offline_first))) =
     Inl (Raised ''offline'')
   \<and> calls (snd (download_and_extract 2024 4 (print (MsgBanner ''2024-Q4'')
          (print (MsgQuarters [''2024-Q4'', ''2025-Q1'']) world_offline_first)))) =
     [Download ''https://www.ncua.gov/files/publications/analysis/call-report-data-2024-12.zip'']"
  by (simp add: download_and_extract_def url_2024_12 world_offline_first_def world0_def
        print_def log_call_def)

lemma requested_range:
  "requested_quarters [''2024-Q4'', ''2025-Q1''] = Inr [''2024-Q4'', ''2025-Q1'']"
  by (simp add: requested_quarters_def range_2024_Q4_2025_Q1)

text \<open>
  Claim C7, as stated, fails: for the periods 2024-Q4 through 2025-Q1, where only the
  archive of 2024-Q4 cannot be fetched, \<^verbatim>\<open>main\<close> ends with the exception of that
  download, and no download of 2025-Q1 is attempted.
\<close>

theorem archive_failure_counterexample:
  "requested_quarters [''2024-Q4'', ''2025-Q1''] = Inr [''2024-Q4'', ''2025-Q1'']
   \<and> quarter_url 2025 1 =
       Inr ''https://www.ncua.gov/files/publications/analysis/call-report-data-2025-03.zip''
   \<and> net world_offline_first
         ''https://www.ncua.gov/files/publications/analysis/call-report-data-2025-03.zip'' =
       Inr (''/t'', [], archive_two)
   \<and> fst (main [''2024-Q4'', ''2025-Q1''] world_offline_first) = Inl (Raised ''offline'')
   \<and> calls (snd (main [''2024-Q4'', ''2025-Q1''] world_offline_first)) =
       [Download ''https://www.ncua.gov/files/publications/analysis/call-report-data-2024-12.zip'']"
proof -
  let ?w = "print (MsgQuarters [''2024-Q4'', ''2025-Q1'']) world_offline_first"
  define w1 where "w1 = snd (download_and_extract 2024 4 (print (MsgBanner ''2024-Q4'') ?w))"
  have d: "download_and_extract 2024 4 (print (MsgBanner ''2024-Q4'') ?w) = (Inl (Raised ''offline''), w1)"
    using offline_download by (simp add: w1_def prod_eq_iff)
  have c: "calls w1 = [Download ''https://www.ncua.gov/files/publications/analysis/call-report-data-2024-12.zip'']"
    using offline_download by (simp add: w1_def)
  have "import_quarter ''2024-Q4'' ?w = (Inl (Raised ''offline''), w1)"
    using parse_2024_Q4 d by (rule import_quarter_download_raises)
  then have "main_loop [''2024-Q4'', ''2025-Q1''] 0 ?w = (Inl (Raised ''offline''), w1)"
    by (rule main_loop_raises)
  then have m: "main [''2024-Q4'', ''2025-Q1''] world_offline_first = (Inl (Raised ''offline''), w1)"
    using requested_range main_raises by blast
  have n: "net world_offline_first
         ''https://www.ncua.gov/files/publications/analysis/call-report-data-2025-03.zip'' =
       Inr (''/t'', [], archive_two)"
    by (simp add: world_offline_first_def)
  show ?thesis using requested_range url_2025_03 n m c by simp
qed

text \<open>
  Claim C7, amended. A failure acquiring the archive of one period is not caught: it
  ends \<^verbatim>\<open>import_quarter\<close> for that period with the exception and, passing through the
  loop of \<^verbatim>\<open>main\<close>, ends the whole run; the periods after it in the requested list are
  neither downloaded nor ingested, the only download attempted being the failing one.
\<close>

theorem archive_failure_amended:
  assumes "parse_quarter qs = Inr (year, quarter)"
    and "download_and_extract year quarter (print (MsgBanner qs) w) = (Inl e, w1)"
  shows "import_quarter qs w = (Inl e, w1)
   \<and> main_loop (qs # later) tot w = (Inl e, w1)
   \<and> (\<forall>args w0. requested_quarters args = Inr (qs # later)
         \<and> w = print (MsgQuarters (qs # later)) w0 \<and> tot = 0 \<longrightarrow> main args w0 = (Inl e, w1))
   \<and> (calls w1 = calls w
       \<or> (\<exists>u. quarter_url year quarter = Inr u \<and> calls w1 = calls w @ [Download u]))"
proof -
  have 1: "import_quarter qs w = (Inl e, w1)"
    using assms by (rule import_quarter_download_raises)
  then have 2: "main_loop (qs # later) tot w = (Inl e, w1)"
    by (rule main_loop_raises)
  have 3: "\<forall>args w0. requested_quarters args = Inr (qs # later)
         \<and> w = print (MsgQuarters (qs # later)) w0 \<and> tot = 0 \<longrightarrow> main args w0 = (Inl e, w1)"
    using 2 main_raises by blast
  have 4: "calls w1 = calls w
       \<or> (\<exists>u. quarter_url year quarter = Inr u \<and> calls w1 = calls w @ [Download u])"
    using download_calls[OF assms(2)] by (simp add: print_def)
  show ?thesis using 1 2 3 4 by blast
qed

theorem archive_failure_amended_witness:
  "parse_quarter ''2024-Q4'' = Inr (2024, 4)
   \<and> fst (download_and_extract 2024 4 (print (MsgBanner ''2024-Q4'')
            (print (MsgQuarters [''2024-Q4'', ''2025-Q1'']) world_offline_first))) =
       Inl (Raised ''offline'')
   \<and> fst (import_quarter ''2024-Q4''
            (print (MsgQuarters [''2024-Q4'', ''2025-Q1'']) world_offline_first)) =
       Inl (Raised ''offline'')
   \<and> fst (main_loop [''2024-Q4'', ''2025-Q1''] 0
            (print (MsgQuarters [''2024-Q4'', ''2025-Q1'']) world_offline_first)) =
       Inl (Raised ''offline'')"
proof -
  let ?w = "print (MsgQuarters [''2024-Q4'', ''2025-Q1'']) world_offline_first"
  define w1 where "w1 = snd (download_and_extract 2024 4 (print (MsgBanner ''2024-Q4'') ?w))"
  have d: "download_and_extract 2024 4 (print (MsgBanner ''2024-Q4'') ?w) = (Inl (Raised ''offline''), w1)"
    using offline_download by (simp add: w1_def prod_eq_iff)
  note t = archive_failure_amended[OF parse_2024_Q4 d, of "[''2025-Q1'']" 0]
  show ?thesis using t parse_2024_Q4 d by simp
qed

subsection \<open>Schema errors during reconciliation\<close>

lemma schema_fail_download:
  "download_and_extract 2025 3 (print (MsgBanner ''2025-Q3'') world_schema_fail) =
     (Inr (''/t'', ''/t/data'',
           ''https://www.ncua.gov/files/publications/analysis/call-report-data-2025-09.zip''),
      snd (download_and_extract 2025 3 (print (MsgBanner ''2025-Q3'') world_schema_fail)))
   \<and> calls (snd (download_and_extract 2025 3 (print (MsgBanner ''2025-Q3'') world_schema_fail))) =
       [Download ''https://www.ncua.gov/files/publications/analysis/call-report-data-2025-09.zip'']
   \<and> faults (snd (download_and_extract 2025 3 (print (MsgBanner ''2025-Q3'') world_schema_fail))) =
       [NoFault, Raise ''boom'']
   \<and> filesys (snd (download_and_extract 2025 3 (print (MsgBanner ''2025-Q3'') world_schema_fail))) =
       archive_two
   \<and> db_columns (snd (download_and_extract 2025 3 (print (MsgBanner ''2025-Q3'') world_schema_fail)))
        ''bronze_foicu'' = []"
  by (simp add: download_and_extract_def url_2025_09 world_schema_fail_def world0_def
        print_def log_call_def resolve_data_dir_def path_join_def archive_two_def)

lemma schema_fail_reconcile:
  assumes "faults w = [NoFault, Raise ''boom'']" and "db_columns w ''bronze_foicu'' = []"
  shows "fst (ensure_columns ''bronze_foicu'' hdr_one w) = Inl (Raised ''boom'')
   \<and> calls (snd (ensure_columns ''bronze_foicu'' hdr_one w)) =
       calls w @ [GetColumnNames ''bronze_foicu'', AddTextColumn ''bronze_foicu'' ''CU_NUMBER'']"
  using assms
  by (simp add: ensure_columns_def rpc_get_column_names_def rpc_add_text_column_def next_fault_def
        log_call_def print_def new_columns_def hdr_one_def KEY_COLUMNS_def)

lemma schema_fail_run:
  defines "w1 \<equiv> snd (download_and_extract 2025 3 (print (MsgBanner ''2025-Q3'') world_schema_fail))"
  defines "w3 \<equiv> snd (ensure_columns ''bronze_foicu'' hdr_one w1)"
  shows "download_and_extract 2025 3 (print (MsgBanner ''2025-Q3'') world_schema_fail) =
           (Inr (''/t'', ''/t/data'',
                 ''https://www.ncua.gov/files/publications/analysis/call-report-data-2025-09.zip''), w1)"
    and "filesys w1 (path_join ''/t/data'' ''FOICU.txt'') = Some (hdr_one, [rec_one])"
    and "filesys w1 (path_join ''/t/data'' ''FS220.txt'') = Some (hdr_one, [rec_one])"
    and "ensure_columns ''bronze_foicu'' hdr_one w1 = (Inl (Raised ''boom''), w3)"
    and "calls w3 =
           [Download ''https://www.ncua.gov/files/publications/analysis/call-report-data-2025-09.zip'',
            GetColumnNames ''bronze_foicu'', AddTextColumn ''bronze_foicu'' ''CU_NUMBER'']"
proof -
  note d = schema_fail_download[folded w1_def]
  show "download_and_extract 2025 3 (print (MsgBanner ''2025-Q3'') world_schema_fail) =
           (Inr (''/t'', ''/t/data'',
                 ''https://www.ncua.gov/files/publications/analysis/call-report-data-2025-09.zip''), w1)"
    using d by simp
  show "filesys w1 (path_join ''/t/data'' ''FOICU.txt'') = Some (hdr_one, [rec_one])"
    using d by (simp add: path_join_def archive_two_def)
  show "filesys w1 (path_join ''/t/data'' ''FS220.txt'') = Some (hdr_one, [rec_one])"
    using d by (simp add: path_join_def archive_two_def)
  have f: "faults w1 = [NoFault, Raise ''boom'']" "db_columns w1 ''bronze_foicu'' = []"
    using d by simp_all
  note r = schema_fail_reconcile[OF f, folded w3_def]
  show "ensure_columns ''bronze_foicu'' hdr_one w1 = (Inl (Raised ''boom''), w3)"
    using r by (simp add: w3_def prod_eq_iff)
  show "calls w3 =
           [Download ''https://www.ncua.gov/files/publications/analysis/call-report-data-2025-09.zip'',
            GetColumnNames ''bronze_foicu'', AddTextColumn ''bronze_foicu'' ''CU_NUMBER'']"
    using r d by simp
qed

lemma source_files_head:
  "SOURCE_FILES = [] @ (''FOICU.txt'', ''bronze_foicu'') # tl SOURCE_FILES"
  by (simp add: SOURCE_FILES_def)

text \<open>
  Claim C5, as stated, fails: when \<^verbatim>\<open>add_text_column\<close> raises during the
  reconciliation of the first file of a period, \<^verbatim>\<open>import_quarter\<close> ends with that
  exception after removing the temporary directory. The second file of the period is
  in the archive and no call is made for it, and the loop over the periods ends with
  the same exception.
\<close>

theorem schema_error_counterexample:
  "hd (tl SOURCE_FILES) = (''FS220.txt'', ''bronze_fs220'')
   \<and> archive_two ''/t/data/FS220.txt'' = Some (hdr_one, [rec_one])
   \<and> fst (import_quarter ''2025-Q3'' world_schema_fail) = Inl (Raised ''boom'')
   \<and> calls (snd (import_quarter ''2025-Q3'' world_schema_fail)) =
       [Download ''https://www.ncua.gov/files/publications/analysis/call-report-data-2025-09.zip'',
        GetColumnNames ''bronze_foicu'', AddTextColumn ''bronze_foicu'' ''CU_NUMBER'',
        Rmtree ''/t'']
   \<and> fst (main_loop [''2025-Q3'', ''2025-Q4''] 0 world_schema_fail) = Inl (Raised ''boom'')"
proof -
  let ?u = "''https://www.ncua.gov/files/publications/analysis/call-report-data-2025-09.zip''"
  define w1 where "w1 = snd (download_and_extract 2025 3 (print (MsgBanner ''2025-Q3'') world_schema_fail))"
  let ?w3 = "snd (ensure_columns ''bronze_foicu'' hdr_one w1)"
  note r = schema_fail_run[folded w1_def]
  have "ingest_file (path_join ''/t/data'' ''FOICU.txt'') ''bronze_foicu'' 2025 3 ''2025-Q3'' ?u w1 =
        (Inl (Raised ''boom''), ?w3)"
    using r(2) r(4) by (rule ingest_file_reconcile_raises)
  then have "import_files ((''FOICU.txt'', ''bronze_foicu'') # tl SOURCE_FILES) ''/t/data'' 2025 3
               ''2025-Q3'' ?u 0 w1 = (Inl (Raised ''boom''), ?w3)"
    by (rule import_files_raises)
  moreover have "import_files SOURCE_FILES ''/t/data'' 2025 3 ''2025-Q3'' ?u 0 w1 =
        import_files ((''FOICU.txt'', ''bronze_foicu'') # tl SOURCE_FILES) ''/t/data'' 2025 3
          ''2025-Q3'' ?u 0 w1"
    by (subst source_files_head) simp
  ultimately have "import_files SOURCE_FILES ''/t/data'' 2025 3 ''2025-Q3'' ?u 0 w1 =
             (Inl (Raised ''boom''), ?w3)"
    by simp
  then have i: "import_quarter ''2025-Q3'' world_schema_fail = (Inl (Raised ''boom''), rmtree ''/t'' ?w3)"
    using parse_2025_Q3 r(1) import_quarter_files_raise by blast
  then have m: "main_loop [''2025-Q3'', ''2025-Q4''] 0 world_schema_fail =
                (Inl (Raised ''boom''), rmtree ''/t'' ?w3)"
    by (rule main_loop_raises)
  have c: "calls (rmtree ''/t'' ?w3) =
       [Download ?u, GetColumnNames ''bronze_foicu'', AddTextColumn ''bronze_foicu'' ''CU_NUMBER'',
        Rmtree ''/t'']"
    using r(5) by (simp add: rmtree_def log_call_def)
  have s: "hd (tl SOURCE_FILES) = (''FS220.txt'', ''bronze_fs220'')"
    by (simp add: SOURCE_FILES_def)
  have a: "archive_two ''/t/data/FS220.txt'' = Some (hdr_one, [rec_one])"
    by (simp add: archive_two_def)
  show ?thesis using s a i m c by simp
qed

text \<open>
  Claim C5, amended. An exception raised during the reconciliation of a file is not
  caught at the file level. It ends \<^verbatim>\<open>ingest_file\<close> in the state reconciliation left,
  before any row of the file is written; the files after it in \<^verbatim>\<open>SOURCE_FILES\<close> are not
  ingested; \<^verbatim>\<open>import_quarter\<close> removes the temporary directory and ends with the
  exception; and so does the loop over the periods, whatever periods remain.
\<close>

theorem schema_error_amended:
  assumes "parse_quarter qs = Inr (year, quarter)"
    and "download_and_extract year quarter (print (MsgBanner qs) w) = (Inr (tmp, data_dir, url), w1)"
    and "SOURCE_FILES = before @ (filename, table) # rest"
    and "import_files before data_dir year quarter qs url 0 w1 = (Inr n, w2)"
    and "filesys w2 (path_join data_dir filename) = Some (hs, recs)"
    and "ensure_columns table hs w2 = (Inl e, w3)"
  shows "ingest_file (path_join data_dir filename) table year quarter qs url w2 = (Inl e, w3)
   \<and> import_files SOURCE_FILES data_dir year quarter qs url 0 w1 = (Inl e, w3)
   \<and> import_quarter qs w = (Inl e, rmtree tmp w3)
   \<and> calls (rmtree tmp w3) = calls w3 @ [Rmtree tmp]
   \<and> main_loop (qs # later) tot w = (Inl e, rmtree tmp w3)"
proof -
  have 1: "ingest_file (path_join data_dir filename) table year quarter qs url w2 = (Inl e, w3)"
    using assms(5,6) by (rule ingest_file_reconcile_raises)
  then have "import_files ((filename, table) # rest) data_dir year quarter qs url n w2 = (Inl e, w3)"
    by (rule import_files_raises)
  then have 2: "import_files SOURCE_FILES data_dir year quarter qs url 0 w1 = (Inl e, w3)"
    unfolding assms(3) import_files_append using assms(4) by simp
  have 3: "import_quarter qs w = (Inl e, rmtree tmp w3)"
    using assms(1,2) 2 by (rule import_quarter_files_raise)
  have 4: "calls (rmtree tmp w3) = calls w3 @ [Rmtree tmp]"
    by (simp add: rmtree_def log_call_def)
  have 5: "main_loop (qs # later) tot w = (Inl e, rmtree tmp w3)"
    using 3 by (rule main_loop_raises)
  show ?thesis using 1 2 3 4 5 by blast
qed

theorem schema_error_amended_witness:
  "parse_quarter ''2025-Q3'' = Inr (2025, 3)
   \<and> fst (download_and_extract 2025 3 (print (MsgBanner ''2025-Q3'') world_schema_fail)) =
       Inr (''/t'', ''/t/data'',
            ''https://www.ncua.gov/files/publications/analysis/call-report-data-2025-09.zip'')
   \<and> SOURCE_FILES = [] @ (''FOICU.txt'', ''bronze_foicu'') # tl SOURCE_FILES
   \<and> fst (ensure_columns ''bronze_foicu'' hdr_one
            (snd (download_and_extract 2025 3 (print (MsgBanner ''2025-Q3'') world_schema_fail)))) =
       Inl (Raised ''boom'')
   \<and> fst (import_quarter ''2025-Q3'' world_schema_fail) = Inl (Raised ''boom'')
   \<and> fst (main_loop [''2025-Q3'', ''2025-Q4''] 0 world_schema_fail) = Inl (Raised ''boom'')"
proof -
  let ?u = "''https://www.ncua.gov/files/publications/analysis/call-report-data-2025-09.zip''"
  define w1 where "w1 = snd (download_and_extract 2025 3 (print (MsgBanner ''2025-Q3'') world_schema_fail))"
  let ?w3 = "snd (ensure_columns ''bronze_foicu'' hdr_one w1)"
  note r = schema_fail_run[folded w1_def]
  have b: "import_files [] ''/t/data'' 2025 3 ''2025-Q3'' ?u 0 w1 = (Inr 0, w1)" by simp
  note t = schema_error_amended[OF parse_2025_Q3 r(1) source_files_head b r(2) r(4),
             of "[''2025-Q4'']" 0]
  from t have i: "import_quarter ''2025-Q3'' world_schema_fail =
                  (Inl (Raised ''boom''), rmtree ''/t'' ?w3)"
    by blast
  from t have m: "main_loop [''2025-Q3'', ''2025-Q4''] 0 world_schema_fail =
                  (Inl (Raised ''boom''), rmtree ''/t'' ?w3)"
    by blast
  have d: "fst (download_and_extract 2025 3 (print (MsgBanner ''2025-Q3'') world_schema_fail)) =
           Inr (''/t'', ''/t/data'', ?u)"
    using r(1) by (metis fst_conv)
  have e: "fst (ensure_columns ''bronze_foicu'' hdr_one
            (snd (download_and_extract 2025 3 (print (MsgBanner ''2025-Q3'') world_schema_fail)))) =
           Inl (Raised ''boom'')"
    using r(4) unfolding w1_def by (metis fst_conv)
  show ?thesis
    using parse_2025_Q3 d source_files_head e i m by simp
qed

subsection \<open>Idempotent ingestion\<close>

lemma row_key_map_add: "row_key x = row_key r \<Longrightarrow> row_key (x ++ r) = row_key x"
  by (auto simp: row_key_def map_add_def split: option.splits)

lemma upsert_row_present:
  "row_key r \<in> row_key ` set tbl \<Longrightarrow>
   upsert_row r tbl = map (\<lambda>x. if row_key x = row_key r then x ++ r else x) tbl"
  by (force simp: upsert_row_def)

lemma upsert_row_absent:
  "row_key r \<notin> row_key ` set tbl \<Longrightarrow> upsert_row r tbl = tbl @ [r]"
proof -
  assume "row_key r \<notin> row_key ` set tbl"
  then have "\<not> (\<exists>x \<in> set tbl. row_key x = row_key r)" by (metis imageI)
  then show ?thesis by (simp add: upsert_row_def)
qed

lemma keys_upsert_row:
  "map row_key (upsert_row r tbl) =
     (if row_key r \<in> row_key ` set tbl then map row_key tbl else map row_key tbl @ [row_key r])"
proof (cases "row_key r \<in> row_key ` set tbl")
  case True
  have "map row_key (map (\<lambda>x. if row_key x = row_key r then x ++ r else x) tbl) = map row_key tbl"
    by (induction tbl) (simp_all add: row_key_map_add)
  then show ?thesis using True by (simp add: upsert_row_present)
next
  case False
  then show ?thesis by (simp add: upsert_row_absent)
qed

lemma distinct_upsert_row:
  "distinct (map row_key tbl) \<Longrightarrow> distinct (map row_key (upsert_row r tbl))"
  by (auto simp: keys_upsert_row)

lemma distinct_upsert_batch:
  "distinct (map row_key tbl) \<Longrightarrow> distinct (map row_key (upsert_batch batch tbl))"
  unfolding upsert_batch_def
  by (induction batch arbitrary: tbl) (simp_all add: distinct_upsert_row)

lemma reachable_distinct: "reachable_table tbl \<Longrightarrow> distinct (map row_key tbl)"
  by (induction rule: reachable_table.induct) (simp_all add: distinct_upsert_batch)

lemma keys_set_upsert_row:
  "row_key ` set (upsert_row r tbl) = insert (row_key r) (row_key ` set tbl)"
proof -
  have "set (map row_key (upsert_row r tbl)) = insert (row_key r) (set (map row_key tbl))"
    unfolding keys_upsert_row by auto
  then show ?thesis by simp
qed

lemma keys_set_fold:
  "row_key ` set (fold upsert_row rs tbl) = row_key ` set rs \<union> row_key ` set tbl"
  by (induction rs arbitrary: tbl) (auto simp: keys_set_upsert_row)

lemma merged_append: "merged k (xs @ ys) = merged k xs ++ merged k ys"
  by (induction xs) simp_all

lemma merged_absent: "k \<notin> row_key ` set rs \<Longrightarrow> merged k rs = Map.empty"
  by (induction rs) auto

lemma fold_present:
  "row_key ` set rs \<subseteq> row_key ` set tbl \<Longrightarrow>
   fold upsert_row rs tbl = map (\<lambda>x. x ++ merged (row_key x) rs) tbl"
proof (induction rs arbitrary: tbl)
  case Nil
  then show ?case by simp
next
  case (Cons r rs)
  let ?u = "\<lambda>x. if row_key x = row_key r then x ++ r else x"
  have p: "row_key r \<in> row_key ` set tbl" using Cons.prems by simp
  have u: "upsert_row r tbl = map ?u tbl" using p by (rule upsert_row_present)
  have k: "row_key ` set (map ?u tbl) = row_key ` set tbl"
    using keys_set_upsert_row[of r tbl] p unfolding u by auto
  have "fold upsert_row rs (map ?u tbl) = map (\<lambda>x. x ++ merged (row_key x) rs) (map ?u tbl)"
    using Cons.IH[of "map ?u tbl"] Cons.prems k by simp
  also have "\<dots> = map (\<lambda>x. x ++ merged (row_key x) (r # rs)) tbl"
    by (simp add: row_key_map_add)
  finally show ?case by (simp add: u)
qed

lemma map_add_self: "(r :: row) ++ r = r"
  by (rule ext) (simp add: map_add_def split: option.splits)

lemma absorb_step:
  assumes "x ++ m = x"
  shows "((x ++ r) ++ m) ++ r = x ++ r"
proof
  fix c
  have "(x ++ m) c = x c" using assms by simp
  then show "(((x ++ r) ++ m) ++ r) c = (x ++ r) c"
    by (auto simp: map_add_def split: option.splits)
qed

lemma saturated_fold:
  "x \<in> set (fold upsert_row rs tbl) \<Longrightarrow> x ++ merged (row_key x) rs = x"
proof (induction rs arbitrary: x rule: rev_induct)
  case Nil
  then show ?case by simp
next
  case (snoc r p)
  let ?T = "fold upsert_row p tbl"
  have x: "x \<in> set (upsert_row r ?T)" using snoc.prems by simp
  have ma: "merged k (p @ [r]) = merged k p ++ (if row_key r = k then r else Map.empty)" for k
    by (simp add: merged_append)
  show ?case
  proof (cases "row_key r \<in> row_key ` set ?T")
    case True
    then obtain y where y: "y \<in> set ?T" and xy: "x = (if row_key y = row_key r then y ++ r else y)"
      using x by (auto simp: upsert_row_present)
    have sy: "y ++ merged (row_key y) p = y" using snoc.IH[OF y] .
    show ?thesis
    proof (cases "row_key y = row_key r")
      case same: True
      then have "x = y ++ r" and "row_key x = row_key y"
        using xy by (simp_all add: row_key_map_add)
      then show ?thesis
        using same sy by (simp add: ma absorb_step)
    next
      case False
      then have "x = y" using xy by simp
      then show ?thesis using False sy by (simp add: ma)
    qed
  next
    case False
    then have "x \<in> set ?T \<or> x = r" using x by (auto simp: upsert_row_absent)
    then show ?thesis
    proof
      assume xT: "x \<in> set ?T"
      then have "row_key x \<noteq> row_key r" using False by (metis imageI)
      then show ?thesis using snoc.IH[OF xT] by (simp add: ma)
    next
      assume xr: "x = r"
      have "row_key r \<notin> row_key ` set p"
        using False keys_set_fold[of p tbl] by auto
      then have "merged (row_key r) p = Map.empty" by (rule merged_absent)
      then show ?thesis using xr by (simp add: ma map_add_self)
    qed
  qed
qed

lemma fold_upsert_idempotent:
  "fold upsert_row rs (fold upsert_row rs tbl) = fold upsert_row rs tbl"
proof -
  let ?T = "fold upsert_row rs tbl"
  have "row_key ` set rs \<subseteq> row_key ` set ?T"
    using keys_set_fold[of rs tbl] by auto
  then have "fold upsert_row rs ?T = map (\<lambda>x. x ++ merged (row_key x) rs) ?T"
    by (rule fold_present)
  also have "\<dots> = map (\<lambda>x. x) ?T"
    by (rule map_cong) (simp_all add: saturated_fold)
  finally show ?thesis by simp
qed

lemma absorbed_le: "x ++ m = x \<Longrightarrow> m \<subseteq>\<^sub>m x"
  unfolding map_le_def
proof
  assume a: "x ++ m = x"
  fix c assume "c \<in> dom m"
  then obtain v where v: "m c = Some v" by auto
  have "(x ++ m) c = x c" using a by simp
  then show "m c = x c" using v by (simp add: map_add_def)
qed

lemma upsert_batch_idempotent:
  "upsert_batch rs (upsert_batch rs tbl) = upsert_batch rs tbl"
  by (simp add: upsert_batch_def fold_upsert_idempotent)

lemma reachable_world_known: "\<forall>t'. reachable_table (db_rows world_known t')"
  by (simp add: world_known_def world0_def reachable_table.empty_table)

text \<open>
  Claim C1. With the insert-or-update of the storage backend as the specification
  describes it, and a backend that meets no fault: ingesting a file a second time for
  the same period leaves every destination table, row for row, as the first ingestion
  left it, and returns the same row count. The first ingestion turns the table into
  the upsert of the projected rows; every table state reachable from the empty table
  by batches of upserts has at most one row per key \<^verbatim>\<open>(cu_number, year, quarter)\<close>, and
  ingestion keeps the tables reachable; after it every projected row has its key in
  the table, and each row of the table carries the columns that the file's rows of
  its key write, so that a repeated key overwrites columns and adds no row.
\<close>

theorem ingest_idempotent:
  assumes "faults w = []" and "filesys w path = Some (hs, recs)"
  shows "db_rows (snd (ingest_file path t y q p u (snd (ingest_file path t y q p u w)))) =
           db_rows (snd (ingest_file path t y q p u w))
   \<and> fst (ingest_file path t y q p u (snd (ingest_file path t y q p u w))) =
       fst (ingest_file path t y q p u w)
   \<and> fst (ingest_file path t y q p u w) = Inr (length (project_rows hs recs y q p u))
   \<and> db_rows (snd (ingest_file path t y q p u w)) =
       (db_rows w)(t := upsert_batch (project_rows hs recs y q p u) (db_rows w t))
   \<and> (\<forall>tbl. reachable_table tbl \<longrightarrow> distinct (map row_key tbl))
   \<and> ((\<forall>t'. reachable_table (db_rows w t')) \<longrightarrow>
        (\<forall>t'. reachable_table (db_rows (snd (ingest_file path t y q p u w)) t')))
   \<and> (\<forall>r \<in> set (project_rows hs recs y q p u).
         row_key r \<in> row_key ` set (db_rows (snd (ingest_file path t y q p u w)) t))
   \<and> (\<forall>x \<in> set (db_rows (snd (ingest_file path t y q p u w)) t).
         merged (row_key x) (project_rows hs recs y q p u) \<subseteq>\<^sub>m x)"
proof -
  let ?rows = "project_rows hs recs y q p u"
  let ?w1 = "snd (ingest_file path t y q p u w)"
  have nr: "no_raise (faults w)" using assms(1) by simp
  note r1 = ingest_file_rows[OF assms, of t y q p u]
  note o1 = ingest_file_ok[OF nr assms(2), of t y q p u]
  have d1: "db_rows ?w1 = (db_rows w)(t := upsert_batch ?rows (db_rows w t))"
    using r1 by (simp add: upsert_batch_def)
  have f1: "faults ?w1 = []" using r1 by simp
  have s1: "filesys ?w1 path = Some (hs, recs)" using o1 assms(2) by simp
  have nr1: "no_raise (faults ?w1)" using f1 by simp
  note r2 = ingest_file_rows[OF f1 s1, of t y q p u]
  note o2 = ingest_file_ok[OF nr1 s1, of t y q p u]
  have "db_rows (snd (ingest_file path t y q p u ?w1)) =
        (db_rows ?w1)(t := upsert_batch ?rows (db_rows ?w1 t))"
    using r2 by (simp add: upsert_batch_def)
  also have "\<dots> = db_rows ?w1"
    unfolding d1 by (simp add: upsert_batch_idempotent)
  finally have 1: "db_rows (snd (ingest_file path t y q p u ?w1)) = db_rows ?w1" .
  have 3: "fst (ingest_file path t y q p u w) = Inr (length ?rows)" using o1 by simp
  have 2: "fst (ingest_file path t y q p u ?w1) = fst (ingest_file path t y q p u w)"
    using o2 3 by simp
  have 5: "\<forall>tbl. reachable_table tbl \<longrightarrow> distinct (map row_key tbl)"
    using reachable_distinct by blast
  have 6: "(\<forall>t'. reachable_table (db_rows w t')) \<longrightarrow> (\<forall>t'. reachable_table (db_rows ?w1 t'))"
    unfolding d1 by (auto intro: reachable_table.after_batch)
  have t1: "db_rows ?w1 t = fold upsert_row ?rows (db_rows w t)"
    unfolding d1 by (simp add: upsert_batch_def)
  have 7: "\<forall>r \<in> set ?rows. row_key r \<in> row_key ` set (db_rows ?w1 t)"
    unfolding t1 keys_set_fold by blast
  have 8: "\<forall>x \<in> set (db_rows ?w1 t). merged (row_key x) ?rows \<subseteq>\<^sub>m x"
    unfolding t1 using saturated_fold absorbed_le by blast
  show ?thesis using 1 2 3 d1 5 6 7 8 by blast
qed

theorem ingest_idempotent_witness:
  "faults world_known = []
   \<and> filesys world_known ''/t/data/FOICU.txt'' = Some (hdr_one, [rec_one])
   \<and> (\<forall>t'. reachable_table (db_rows world_known t'))
   \<and> db_rows (snd (ingest_file ''/t/data/FOICU.txt'' ''bronze_foicu'' 2025 3 ''2025-Q3'' ''u''
         (snd (ingest_file ''/t/data/FOICU.txt'' ''bronze_foicu'' 2025 3 ''2025-Q3'' ''u''
            world_known)))) =
       db_rows (snd (ingest_file ''/t/data/FOICU.txt'' ''bronze_foicu'' 2025 3 ''2025-Q3'' ''u''
         world_known))
   \<and> db_rows (snd (ingest_file ''/t/data/FOICU.txt'' ''bronze_foicu'' 2025 3 ''2025-Q3'' ''u''
         world_known)) ''bronze_foicu'' = [row_one]
   \<and> distinct (map row_key (db_rows (snd (ingest_file ''/t/data/FOICU.txt'' ''bronze_foicu'' 2025 3
         ''2025-Q3'' ''u'' world_known)) ''bronze_foicu''))"
proof -
  have f: "faults world_known = []" by (simp add: world_known_def world0_def)
  have s: "filesys world_known ''/t/data/FOICU.txt'' = Some (hdr_one, [rec_one])"
    by (simp add: world_known_def archive_two_def)
  have e: "db_rows world_known ''bronze_foicu'' = []" by (simp add: world_known_def world0_def)
  note t = ingest_idempotent[OF f s, of "''bronze_foicu''" 2025 3 "''2025-Q3''" "''u''",
             unfolded rows_one]
  let ?w1 = "snd (ingest_file ''/t/data/FOICU.txt'' ''bronze_foicu'' 2025 3 ''2025-Q3'' ''u'' world_known)"
  have a: "db_rows (snd (ingest_file ''/t/data/FOICU.txt'' ''bronze_foicu'' 2025 3 ''2025-Q3'' ''u'' ?w1)) =
           db_rows ?w1"
    using t by blast
  have "db_rows ?w1 = (db_rows world_known)(''bronze_foicu'' := upsert_batch [row_one]
                          (db_rows world_known ''bronze_foicu''))"
    using t by blast
  then have b: "db_rows ?w1 ''bronze_foicu'' = [row_one]"
    by (simp add: e upsert_batch_def upsert_row_def)
  have c: "distinct (map row_key (db_rows ?w1 ''bronze_foicu''))"
    using t reachable_world_known by blast
  show ?thesis using f s reachable_world_known a b c by blast
qed

end
